theory Spec2Isabelle
  imports Complex_Main "HOL-Library.AList" "HOL-Library.Multiset"
begin

section \<open>Graph minors: quotient graphs and contractions\<close>

text \<open>
  A shallow embedding of \<^verbatim>\<open>networkx/algorithms/minors.py\<close>: the functions
  \<^verbatim>\<open>equivalence_classes\<close>, \<^verbatim>\<open>quotient_graph\<close>, \<^verbatim>\<open>contracted_nodes\<close>,
  \<^verbatim>\<open>contracted_edge\<close> and \<^verbatim>\<open>blockmodel\<close>. Exceptions are values of type
  \<open>error\<close>; a function that may raise returns \<open>error + 'a\<close> with \<open>Inl\<close> for the
  exception.
\<close>

subsection \<open>Exceptions and attribute values\<close>

text \<open>
  \<open>NetworkXException\<close> is raised by \<^verbatim>\<open>quotient_graph\<close> (it also stands for its
  subclass \<^verbatim>\<open>NetworkXError\<close>), \<open>ValueError\<close> by \<^verbatim>\<open>contracted_edge\<close>. \<open>KeyError\<close>,
  \<open>TypeError\<close> and \<open>StopIteration\<close> are the exceptions of the Python operations the
  module uses: indexing with a missing key, adding or assigning to a value of the wrong
  kind, and \<^verbatim>\<open>next\<close> on an exhausted iterator.
\<close>

datatype error = NetworkXException | ValueError | KeyError | TypeError | StopIteration

text \<open>
  Attribute values: Python integers, strings, node identifiers (as dictionary keys of a
  contraction record) and dictionaries. A dictionary is an association list in insertion
  order with distinct keys. Floating-point attribute values are outside the model.
\<close>

datatype 'n pyval = IntV int | StrV string | NodeV 'n | DictV "('n pyval \<times> 'n pyval) list"

type_synonym 'n attrs = "('n pyval \<times> 'n pyval) list"

text \<open>\<^verbatim>\<open>d.update(e)\<close>: the entries of \<open>e\<close> are written into \<open>d\<close> one by one.\<close>

definition dict_update :: "('k \<times> 'v) list \<Rightarrow> ('k \<times> 'v) list \<Rightarrow> ('k \<times> 'v) list" where
  "dict_update d e = fold (\<lambda>(k, v). AList.update k v) e d"

subsection \<open>The graph abstraction\<close>

text \<open>
  Modelled from the spec: the graph classes (\<^verbatim>\<open>Graph\<close>, \<^verbatim>\<open>DiGraph\<close>,
  \<^verbatim>\<open>MultiGraph\<close>, \<^verbatim>\<open>MultiDiGraph\<close>) are used by the module but are not part of its
  source file. Section 6 of the specification gives their contract: a node set and an
  edge set with per-node and per-edge attribute maps, a directed flag and a multigraph
  flag, the neighbour set of a node, an edge existence test, induced subgraphs, a full
  copy, adding a node or an edge with attributes, and removing a node with its edges.
  A graph is a record of its class, its nodes with their attribute dictionaries (in
  insertion order) and its edges \<open>(u, v, key, data)\<close> (in insertion order). In a graph
  that is not a multigraph every key is \<open>0\<close>; in an undirected graph the edge
  \<open>(u, v, k, d)\<close> also joins \<open>v\<close> to \<open>u\<close>. A copy of a graph is the same value.
\<close>

datatype graph_class = Graph | DiGraph | MultiGraph | MultiDiGraph

record ('n, 'nd, 'ed) graph =
  cls :: graph_class
  node :: "('n \<times> 'nd) list"
  edgelist :: "('n \<times> 'n \<times> nat \<times> 'ed) list"

type_synonym 'n pygraph = "('n, 'n attrs, 'n attrs) graph"

text \<open>Modelled from the spec: \<^verbatim>\<open>type(G)()\<close>, a new empty graph of a class.\<close>

definition empty_graph :: "graph_class \<Rightarrow> ('n, 'nd, 'ed) graph" where
  "empty_graph c = \<lparr>cls = c, node = [], edgelist = []\<rparr>"

text \<open>Modelled from the spec: the directed flag and the multigraph flag of a graph.\<close>

definition is_directed :: "('n, 'nd, 'ed) graph \<Rightarrow> bool" where
  "is_directed G \<longleftrightarrow> cls G = DiGraph \<or> cls G = MultiDiGraph"

definition is_multigraph :: "('n, 'nd, 'ed) graph \<Rightarrow> bool" where
  "is_multigraph G \<longleftrightarrow> cls G = MultiGraph \<or> cls G = MultiDiGraph"

text \<open>
  Modelled from the spec: the node set. \<open>nodes_list G\<close> is the iteration
  \<^verbatim>\<open>for v in G\<close>, \<open>has_node G n\<close> is \<^verbatim>\<open>n in G\<close>, \<open>number_of_nodes G\<close> is
  \<^verbatim>\<open>len(G)\<close>.
\<close>

definition nodes_list :: "('n, 'nd, 'ed) graph \<Rightarrow> 'n list" where
  "nodes_list G = map fst (node G)"

definition has_node :: "('n, 'nd, 'ed) graph \<Rightarrow> 'n \<Rightarrow> bool" where
  "has_node G n \<longleftrightarrow> n \<in> set (nodes_list G)"

definition number_of_nodes :: "('n, 'nd, 'ed) graph \<Rightarrow> nat" where
  "number_of_nodes G = length (node G)"

definition number_of_edges :: "('n, 'nd, 'ed) graph \<Rightarrow> nat" where
  "number_of_edges G = length (edgelist G)"

text \<open>
  Modelled from the spec: the neighbour set and the edge existence test. \<open>joins dir u v e\<close>
  says that the stored edge \<open>e\<close> leads from \<open>u\<close> to \<open>v\<close>; \<open>neighbor_test G u v\<close> is
  \<^verbatim>\<open>v in G[u]\<close>, which raises \<^verbatim>\<open>KeyError\<close> when \<open>u\<close> is not a node;
  \<open>has_edge G u v\<close> is \<^verbatim>\<open>G.has_edge(u, v)\<close>, which is false in that case.
\<close>

definition joins :: "bool \<Rightarrow> 'n \<Rightarrow> 'n \<Rightarrow> 'n \<times> 'n \<times> nat \<times> 'ed \<Rightarrow> bool" where
  "joins dir u v e = (case e of (a, b, k, d) \<Rightarrow> (a = u \<and> b = v) \<or> (\<not> dir \<and> a = v \<and> b = u))"

definition adjacent :: "('n, 'nd, 'ed) graph \<Rightarrow> 'n \<Rightarrow> 'n \<Rightarrow> bool" where
  "adjacent G u v \<longleftrightarrow> (\<exists>e\<in>set (edgelist G). joins (is_directed G) u v e)"

definition neighbor_test :: "('n, 'nd, 'ed) graph \<Rightarrow> 'n \<Rightarrow> 'n \<Rightarrow> error + bool" where
  "neighbor_test G u v = (if has_node G u then Inr (adjacent G u v) else Inl KeyError)"

definition has_edge :: "('n, 'nd, 'ed) graph \<Rightarrow> 'n \<Rightarrow> 'n \<Rightarrow> bool" where
  "has_edge G u v \<longleftrightarrow> has_node G u \<and> adjacent G u v"

text \<open>
  Modelled from the spec: \<^verbatim>\<open>G.get_edge_data(u, v, default={})\<close>. For a graph that is
  not a multigraph it is the attribute dictionary of the edge from \<open>u\<close> to \<open>v\<close>; for a
  multigraph it is the dictionary of all edges from \<open>u\<close> to \<open>v\<close>, from each edge key to
  that edge's attribute dictionary; it is the empty dictionary when there is no such edge.
\<close>

definition get_edge_data :: "'n pygraph \<Rightarrow> 'n \<Rightarrow> 'n \<Rightarrow> 'n attrs" where
  "get_edge_data G u v =
     (case filter (joins (is_directed G) u v) (edgelist G) of
        [] \<Rightarrow> []
      | (a, b, k, d) # es \<Rightarrow>
          if is_multigraph G
          then map (\<lambda>(a, b, k, d). (IntV (int k), DictV d)) ((a, b, k, d) # es)
          else d)"

text \<open>
  Modelled from the spec: the edge set with per-edge attribute maps.
  \<open>edges G nbunch\<close> is \<^verbatim>\<open>G.edges(nbunch, data=True)\<close>: every edge incident to a node of
  \<open>nbunch\<close> (leaving a node of \<open>nbunch\<close> when \<open>G\<close> is directed), once, as
  \<open>(u, v, data)\<close> with \<open>u\<close> in \<open>nbunch\<close>. \<open>out_edges G v\<close> and \<open>in_edges G v\<close> are
  \<^verbatim>\<open>G.out_edges(v, data=True)\<close> and \<^verbatim>\<open>G.in_edges(v, data=True)\<close> of a directed
  graph.
\<close>

definition edges :: "('n, 'nd, 'ed) graph \<Rightarrow> 'n set \<Rightarrow> ('n \<times> 'n \<times> 'ed) list" where
  "edges G nbunch =
     List.map_filter
       (\<lambda>(a, b, k, d).
          if a \<in> nbunch then Some (a, b, d)
          else if \<not> is_directed G \<and> b \<in> nbunch then Some (b, a, d)
          else None)
       (edgelist G)"

definition out_edges :: "('n, 'nd, 'ed) graph \<Rightarrow> 'n \<Rightarrow> ('n \<times> 'n \<times> 'ed) list" where
  "out_edges G v = List.map_filter (\<lambda>(a, b, k, d). if a = v then Some (a, b, d) else None) (edgelist G)"

definition in_edges :: "('n, 'nd, 'ed) graph \<Rightarrow> 'n \<Rightarrow> ('n \<times> 'n \<times> 'ed) list" where
  "in_edges G v = List.map_filter (\<lambda>(a, b, k, d). if b = v then Some (a, b, d) else None) (edgelist G)"

text \<open>
  Modelled from the spec: adding a node with attributes. A new node is appended with the
  given attribute dictionary; for a node that is present the dictionary is updated.
  \<open>add_nodes_from\<close> adds the nodes of a list in order.
\<close>

definition add_node :: "('n, ('k \<times> 'v) list, 'ed) graph \<Rightarrow> 'n \<Rightarrow> ('k \<times> 'v) list \<Rightarrow> ('n, ('k \<times> 'v) list, 'ed) graph" where
  "add_node G n attr =
     (if has_node G n
      then G\<lparr>node := map (\<lambda>(m, d). if m = n then (m, dict_update d attr) else (m, d)) (node G)\<rparr>
      else G\<lparr>node := node G @ [(n, attr)]\<rparr>)"

definition add_nodes_from :: "('n, ('k \<times> 'v) list, 'ed) graph \<Rightarrow> ('n \<times> ('k \<times> 'v) list) list \<Rightarrow> ('n, ('k \<times> 'v) list, 'ed) graph" where
  "add_nodes_from G ns = fold (\<lambda>(n, attr) H. add_node H n attr) ns G"

text \<open>
  Modelled from the spec: adding an edge with attributes. Both end points become nodes
  (with an empty attribute dictionary) when they are not. In a multigraph the edge is
  new and gets the first unused key, counted up from the number of edges between the two
  nodes (\<open>new_key\<close>); otherwise an edge between the two nodes that is present has its
  attribute dictionary updated. \<open>add_edges_from\<close> adds the edges of a list in order.
\<close>

function new_key :: "nat list \<Rightarrow> nat \<Rightarrow> nat" where
  "new_key keydict key = (if key \<in> set keydict then new_key keydict (Suc key) else key)"
  by pat_completeness auto
termination
proof (relation "measure (\<lambda>(ks, k). Suc (Max (set (0 # ks))) - k)")
  show "wf (measure (\<lambda>(ks, k). Suc (Max (set (0 # ks))) - k))" by simp
next
  fix keydict :: "nat list" and key :: nat
  assume "key \<in> set keydict"
  then have "key \<le> Max (set (0 # keydict))" by (simp add: Max_ge)
  then show "((keydict, Suc key), (keydict, key)) \<in> measure (\<lambda>(ks, k). Suc (Max (set (0 # ks))) - k)"
    by simp
qed

definition add_edge :: "('n, ('k \<times> 'v) list, ('j \<times> 'w) list) graph \<Rightarrow> 'n \<Rightarrow> 'n \<Rightarrow> ('j \<times> 'w) list
    \<Rightarrow> ('n, ('k \<times> 'v) list, ('j \<times> 'w) list) graph" where
  "add_edge G u v attr =
     (let H = add_node (add_node G u []) v [];
          dir = is_directed G;
          between = filter (joins dir u v) (edgelist G)
      in if is_multigraph G
         then let keydict = map (\<lambda>(a, b, k, d). k) between
              in H\<lparr>edgelist := edgelist G @ [(u, v, new_key keydict (length keydict), attr)]\<rparr>
         else if between = []
         then H\<lparr>edgelist := edgelist G @ [(u, v, 0, attr)]\<rparr>
         else H\<lparr>edgelist := map (\<lambda>e. if joins dir u v e
                                         then (case e of (a, b, k, d) \<Rightarrow> (a, b, k, dict_update d attr))
                                         else e) (edgelist G)\<rparr>)"

definition add_edges_from :: "('n, ('k \<times> 'v) list, ('j \<times> 'w) list) graph \<Rightarrow> ('n \<times> 'n \<times> ('j \<times> 'w) list) list
    \<Rightarrow> ('n, ('k \<times> 'v) list, ('j \<times> 'w) list) graph" where
  "add_edges_from G es = fold (\<lambda>(u, v, attr) H. add_edge H u v attr) es G"

text \<open>
  Modelled from the spec: removing a node with its incident edges; it raises when the
  node is not in the graph.
\<close>

definition remove_node :: "('n, 'nd, 'ed) graph \<Rightarrow> 'n \<Rightarrow> error + ('n, 'nd, 'ed) graph" where
  "remove_node G n =
     (if has_node G n
      then Inr (G\<lparr>node := filter (\<lambda>(m, d). m \<noteq> n) (node G),
                  edgelist := filter (\<lambda>(a, b, k, d). a \<noteq> n \<and> b \<noteq> n) (edgelist G)\<rparr>)
      else Inl NetworkXException)"

text \<open>
  Modelled from the spec: the induced subgraph on the nodes of \<open>nbunch\<close> that are in the
  graph, the number of edges of a graph, and its density, the ratio of its edges to the
  edges it could have (the quotient that Python rounds to a floating-point number).
\<close>

definition subgraph :: "('n, 'nd, 'ed) graph \<Rightarrow> 'n set \<Rightarrow> ('n, 'nd, 'ed) graph" where
  "subgraph G nbunch =
     G\<lparr>node := filter (\<lambda>(m, d). m \<in> nbunch) (node G),
       edgelist := filter (\<lambda>(a, b, k, d). a \<in> nbunch \<and> b \<in> nbunch) (edgelist G)\<rparr>"

definition density :: "('n, 'nd, 'ed) graph \<Rightarrow> rat" where
  "density G =
     (let n = number_of_nodes G; m = number_of_edges G
      in if m = 0 \<or> n \<le> 1 then 0
         else if is_directed G then of_nat m / of_nat (n * (n - 1))
         else of_nat m * 2 / of_nat (n * (n - 1)))"

text \<open>
  Modelled from the spec: \<^verbatim>\<open>nx.relabel_nodes(H, mapping)\<close>, a new graph in which every
  node key is replaced by its image; attribute data stays with its node and edge.
\<close>

definition relabel_nodes :: "('n, 'nd, 'ed) graph \<Rightarrow> ('n \<Rightarrow> 'm) \<Rightarrow> ('m, 'nd, 'ed) graph" where
  "relabel_nodes G mapping =
     \<lparr>cls = cls G,
      node = map (\<lambda>(n, d). (mapping n, d)) (node G),
      edgelist = map (\<lambda>(a, b, k, d). (mapping a, mapping b, k, d)) (edgelist G)\<rparr>"

subsection \<open>Iteration helpers\<close>

text \<open>
  \<^verbatim>\<open>itertools.combinations(xs, 2)\<close> and \<^verbatim>\<open>itertools.permutations(xs, 2)\<close>: the pairs
  of elements at two different positions of \<open>xs\<close>, in the order of the positions.
\<close>

fun combinations2 :: "'a list \<Rightarrow> ('a \<times> 'a) list" where
  "combinations2 [] = []"
| "combinations2 (x # xs) = map (Pair x) xs @ combinations2 xs"

fun permutations2_from :: "'a list \<Rightarrow> 'a list \<Rightarrow> ('a \<times> 'a) list" where
  "permutations2_from pre [] = []"
| "permutations2_from pre (x # post) =
     map (Pair x) (pre @ post) @ permutations2_from (pre @ [x]) post"

definition permutations2 :: "'a list \<Rightarrow> ('a \<times> 'a) list" where
  "permutations2 xs = permutations2_from [] xs"

text \<open>
  \<^verbatim>\<open>itertools.product(b, c)\<close> for two frozen sets. The iteration order of a frozen set
  is not specified by Python; the model iterates in increasing order.
\<close>

definition product :: "'n::linorder set \<Rightarrow> 'n set \<Rightarrow> ('n \<times> 'n) list" where
  "product b c = List.product (sorted_list_of_set b) (sorted_list_of_set c)"

text \<open>
  A generator expression whose items may raise, chained into one list: the first
  exception ends the iteration.
\<close>

fun collect :: "('a \<Rightarrow> error + 'b list) \<Rightarrow> 'a list \<Rightarrow> error + 'b list" where
  "collect f [] = Inr []"
| "collect f (x # xs) =
     (case f x of
        Inl e \<Rightarrow> Inl e
      | Inr ys \<Rightarrow> (case collect f xs of Inl e \<Rightarrow> Inl e | Inr zs \<Rightarrow> Inr (ys @ zs)))"

subsection \<open>\<^verbatim>\<open>equivalence_classes\<close>\<close>

text \<open>
  \<^verbatim>\<open>arbitrary_element(block)\<close> is \<^verbatim>\<open>next(iter(block))\<close>: the first element of a list.
  \<open>scan_blocks\<close> is the inner \<^verbatim>\<open>for block in blocks: ... else: ...\<close> for one element
  \<open>y\<close>, \<open>classes_loop\<close> the outer loop over the iterable. The result of
  \<^verbatim>\<open>equivalence_classes\<close> is a Python set of frozen sets; the model gives its elements
  as a list without repetitions.
\<close>

definition arbitrary_element :: "'a list \<Rightarrow> error + 'a" where
  "arbitrary_element block = (case block of [] \<Rightarrow> Inl StopIteration | x # _ \<Rightarrow> Inr x)"

fun scan_blocks :: "('a \<Rightarrow> 'a \<Rightarrow> bool) \<Rightarrow> 'a \<Rightarrow> 'a list list \<Rightarrow> error + 'a list list" where
  "scan_blocks relation y [] = Inr [[y]]"
| "scan_blocks relation y (block # blocks) =
     (case arbitrary_element block of
        Inl e \<Rightarrow> Inl e
      | Inr x \<Rightarrow>
          if relation x y then Inr ((block @ [y]) # blocks)
          else (case scan_blocks relation y blocks of
                  Inl e \<Rightarrow> Inl e
                | Inr blocks' \<Rightarrow> Inr (block # blocks')))"

fun classes_loop :: "('a \<Rightarrow> 'a \<Rightarrow> bool) \<Rightarrow> 'a list \<Rightarrow> 'a list list \<Rightarrow> error + 'a list list" where
  "classes_loop relation [] blocks = Inr blocks"
| "classes_loop relation (y # ys) blocks =
     (case scan_blocks relation y blocks of
        Inl e \<Rightarrow> Inl e
      | Inr blocks' \<Rightarrow> classes_loop relation ys blocks')"

definition equivalence_classes :: "'a list \<Rightarrow> ('a \<Rightarrow> 'a \<Rightarrow> bool) \<Rightarrow> error + 'a set list" where
  "equivalence_classes iterable relation =
     (case classes_loop relation iterable [] of
        Inl e \<Rightarrow> Inl e
      | Inr blocks \<Rightarrow> Inr (remdups (map set blocks)))"

subsection \<open>\<^verbatim>\<open>quotient_graph\<close>\<close>

text \<open>
  The partition argument is a relation (a callable) or a list of blocks. A node of the
  quotient graph is a frozen set of nodes of \<open>G\<close>, or its integer label after
  relabelling. The attribute values of a block are the subgraph, the counts and the
  density of the default \<^verbatim>\<open>node_data\<close>, or values supplied by the caller.
\<close>

datatype 'n partition_arg = Relation "'n \<Rightarrow> 'n \<Rightarrow> bool" | Blocks "'n list list"

datatype 'n qnode = Block "'n set" | Label nat

datatype 'n block_val = SubgraphV "'n pygraph" | CountV nat | DensityV rat | UserV "'n pyval"

type_synonym 'n block_attrs = "(string \<times> 'n block_val) list"

type_synonym 'n qgraph = "('n qnode, 'n block_attrs, 'n attrs) graph"

text \<open>The default \<^verbatim>\<open>node_data\<close> (lines 231 to 234).\<close>

definition default_node_data :: "'n pygraph \<Rightarrow> 'n set \<Rightarrow> 'n block_attrs" where
  "default_node_data G b =
     (let S = subgraph G b
      in [(''graph'', SubgraphV S), (''nnodes'', CountV (number_of_nodes S)),
          (''nedges'', CountV (number_of_edges S)), (''density'', DensityV (density S))])"

text \<open>
  The default \<^verbatim>\<open>edge_relation\<close> (lines 246 and 247):
  \<^verbatim>\<open>any(v in G[u] for u, v in product(b, c))\<close>, which stops at the first pair that is
  adjacent and raises when \<open>u\<close> is not a node of \<open>G\<close>.
\<close>

fun any_neighbor :: "('n, 'nd, 'ed) graph \<Rightarrow> ('n \<times> 'n) list \<Rightarrow> error + bool" where
  "any_neighbor G [] = Inr False"
| "any_neighbor G ((u, v) # ps) =
     (case neighbor_test G u v of
        Inl e \<Rightarrow> Inl e
      | Inr found \<Rightarrow> if found then Inr True else any_neighbor G ps)"

definition default_edge_relation :: "('n::linorder, 'nd, 'ed) graph \<Rightarrow> 'n set \<Rightarrow> 'n set \<Rightarrow> error + bool" where
  "default_edge_relation G b c = any_neighbor G (product b c)"

text \<open>
  The default \<^verbatim>\<open>edge_data\<close> (lines 251 to 254). \<open>py_sum\<close> is Python's \<^verbatim>\<open>sum\<close>,
  which raises \<^verbatim>\<open>TypeError\<close> at the first summand that is not a number;
  \<open>weight_or_1 d\<close> is \<^verbatim>\<open>d.get('weight', 1)\<close>.
\<close>

fun py_sum :: "'n pyval list \<Rightarrow> int \<Rightarrow> error + int" where
  "py_sum [] start = Inr start"
| "py_sum (IntV i # ws) start = py_sum ws (start + i)"
| "py_sum (_ # ws) start = Inl TypeError"

definition weight_or_1 :: "'n attrs \<Rightarrow> 'n pyval" where
  "weight_or_1 d = (case map_of d (StrV ''weight'') of Some w \<Rightarrow> w | None \<Rightarrow> IntV 1)"

definition default_edge_data :: "'n pygraph \<Rightarrow> 'n set \<Rightarrow> 'n set \<Rightarrow> error + 'n attrs" where
  "default_edge_data G b c =
     (let edgedata = map (\<lambda>(u, v, d). d)
            (filter (\<lambda>(u, v, d). (u \<in> b \<and> v \<in> c) \<or> (u \<in> c \<and> v \<in> b)) (edges G (b \<union> c)))
      in case py_sum (map weight_or_1 edgedata) 0 of
           Inl e \<Rightarrow> Inl e
         | Inr w \<Rightarrow> Inr [(StrV ''weight'', IntV w)])"

text \<open>
  The edges of the quotient graph (lines 258 to 267): in a multigraph, for every related
  pair of blocks, one edge for every pair \<open>(u, v)\<close> of \<open>product(b, c)\<close> with \<open>v\<close> in
  \<open>G[u]\<close>, with the data \<^verbatim>\<open>G.get_edge_data(u, v, default={})\<close>; otherwise one edge
  with the data \<^verbatim>\<open>edge_data(b, c)\<close> for every related pair of blocks.
\<close>

definition crossing_edges :: "'n::linorder pygraph \<Rightarrow> 'n set \<Rightarrow> 'n set \<Rightarrow> error + ('n set \<times> 'n set \<times> 'n attrs) list" where
  "crossing_edges G b c =
     collect (\<lambda>(u, v). case neighbor_test G u v of
                          Inl e \<Rightarrow> Inl e
                        | Inr found \<Rightarrow> Inr (if found then [(b, c, get_edge_data G u v)] else []))
             (product b c)"

definition multigraph_edges :: "'n::linorder pygraph \<Rightarrow> ('n set \<Rightarrow> 'n set \<Rightarrow> error + bool) \<Rightarrow> ('n set \<times> 'n set) list
    \<Rightarrow> error + ('n set \<times> 'n set \<times> 'n attrs) list" where
  "multigraph_edges G edge_relation block_pairs =
     collect (\<lambda>(b, c). case edge_relation b c of
                          Inl e \<Rightarrow> Inl e
                        | Inr related \<Rightarrow> if related then crossing_edges G b c else Inr [])
             block_pairs"

definition simple_edges :: "('n set \<Rightarrow> 'n set \<Rightarrow> error + bool) \<Rightarrow> ('n set \<Rightarrow> 'n set \<Rightarrow> error + 'n attrs)
    \<Rightarrow> ('n set \<times> 'n set) list \<Rightarrow> error + ('n set \<times> 'n set \<times> 'n attrs) list" where
  "simple_edges edge_relation edge_data block_pairs =
     collect (\<lambda>(b, c). case edge_relation b c of
                          Inl e \<Rightarrow> Inl e
                        | Inr related \<Rightarrow>
                            if related
                            then (case edge_data b c of Inl e \<Rightarrow> Inl e | Inr d \<Rightarrow> Inr [(b, c, d)])
                            else Inr [])
             block_pairs"

text \<open>
  \<^verbatim>\<open>labels = {b: i for i, b in enumerate(partition)}\<close> (line 276): a block that occurs
  twice keeps the later index.
\<close>

definition block_labels :: "'b list \<Rightarrow> ('b \<times> nat) list" where
  "block_labels partition' = fold (\<lambda>(i, b). AList.update b i) (enumerate 0 partition') []"

text \<open>
  \<^verbatim>\<open>quotient_graph\<close> (lines 222 to 278). \<open>create_using\<close> is given by its class, the
  only part of it the function reads. Without relabelling the nodes of the result are
  the blocks themselves (\<open>Block\<close>); with it, \<^verbatim>\<open>mapping.get(n, n)\<close> of
  \<^verbatim>\<open>relabel_nodes\<close> replaces every block by its label.
\<close>

definition quotient_graph :: "'n::linorder pygraph \<Rightarrow> 'n partition_arg \<Rightarrow> ('n set \<Rightarrow> 'n set \<Rightarrow> bool) option
    \<Rightarrow> ('n set \<Rightarrow> 'n block_attrs) option \<Rightarrow> ('n set \<Rightarrow> 'n set \<Rightarrow> 'n attrs) option \<Rightarrow> bool
    \<Rightarrow> graph_class option \<Rightarrow> error + 'n qgraph" where
  "quotient_graph G partition' edge_relation node_data edge_data relabel create_using =
     (case (case partition' of
              Relation r \<Rightarrow>
                (case equivalence_classes (nodes_list G) r of
                   Inl e \<Rightarrow> Inl e
                 | Inr classes \<Rightarrow> Inr (map sorted_list_of_set classes))
            | Blocks blocks \<Rightarrow> Inr blocks) of
        Inl e \<Rightarrow> Inl e
      | Inr partition' \<Rightarrow>
          if \<exists>v\<in>set (nodes_list G). length (filter (\<lambda>b. v \<in> set b) partition') \<noteq> 1
          then Inl NetworkXException
          else
            let H = (case create_using of Some c \<Rightarrow> empty_graph c | None \<Rightarrow> empty_graph (cls G));
                node_data = (case node_data of None \<Rightarrow> default_node_data G | Some f \<Rightarrow> f);
                partition' = map set partition';
                H = add_nodes_from H (map (\<lambda>b. (b, node_data b)) partition');
                edge_relation = (case edge_relation of
                                   None \<Rightarrow> default_edge_relation G
                                 | Some f \<Rightarrow> (\<lambda>b c. Inr (f b c)));
                edge_data = (case edge_data of
                               None \<Rightarrow> default_edge_data G
                             | Some f \<Rightarrow> (\<lambda>b c. Inr (f b c)));
                block_pairs = (if is_directed H then permutations2 (nodes_list H)
                               else combinations2 (nodes_list H))
            in (case (if is_multigraph H then multigraph_edges G edge_relation block_pairs
                      else simple_edges edge_relation edge_data block_pairs) of
                  Inl e \<Rightarrow> Inl e
                | Inr es \<Rightarrow>
                    let H = add_edges_from H es;
                        labels = block_labels partition'
                    in Inr (relabel_nodes H
                              (if relabel
                               then (\<lambda>b. case map_of labels b of Some i \<Rightarrow> Label i | None \<Rightarrow> Block b)
                               else Block))))"

subsection \<open>\<^verbatim>\<open>contracted_nodes\<close> and \<^verbatim>\<open>contracted_edge\<close>\<close>

text \<open>\<^verbatim>\<open>H.node[n][k] = x\<close>.\<close>

definition set_node_attr :: "('n, ('k \<times> 'v) list, 'ed) graph \<Rightarrow> 'n \<Rightarrow> 'k \<Rightarrow> 'v \<Rightarrow> ('n, ('k \<times> 'v) list, 'ed) graph" where
  "set_node_attr G n k x = G\<lparr>node := map (\<lambda>(m, d). if m = n then (m, AList.update k x d) else (m, d)) (node G)\<rparr>"

text \<open>
  \<^verbatim>\<open>contracted_nodes\<close> (lines 328 to 345). \<open>H\<close> starts as the copy of \<open>G\<close>; the new
  edges are read from \<open>G\<close>. \<^verbatim>\<open>H.node[v]\<close> and \<^verbatim>\<open>H.node[u]\<close> raise
  \<^verbatim>\<open>KeyError\<close> for a missing node, and the assignment into
  \<^verbatim>\<open>H.node[u]['contraction']\<close> raises \<^verbatim>\<open>TypeError\<close> when that attribute is
  present and is not a dictionary.
\<close>

definition contracted_nodes :: "'n pygraph \<Rightarrow> 'n \<Rightarrow> 'n \<Rightarrow> bool \<Rightarrow> error + 'n pygraph" where
  "contracted_nodes G u v self_loops =
     (let H = G;
          new_edges =
            (if is_directed H
             then map (\<lambda>(w, x, d). (w, u, d)) (filter (\<lambda>(w, x, d). self_loops \<or> w \<noteq> u) (in_edges G v))
                  @ map (\<lambda>(x, w, d). (u, w, d)) (filter (\<lambda>(x, w, d). self_loops \<or> w \<noteq> u) (out_edges G v))
             else map (\<lambda>(x, w, d). (u, w, d)) (filter (\<lambda>(x, w, d). self_loops \<or> w \<noteq> u) (edges G {v})))
      in case map_of (node H) v of
           None \<Rightarrow> Inl KeyError
         | Some v_data \<Rightarrow>
             (case remove_node H v of
                Inl e \<Rightarrow> Inl e
              | Inr H \<Rightarrow>
                  let H = add_edges_from H new_edges
                  in (case map_of (node H) u of
                        None \<Rightarrow> Inl KeyError
                      | Some u_data \<Rightarrow>
                          (case map_of u_data (StrV ''contraction'') of
                             None \<Rightarrow> Inr (set_node_attr H u (StrV ''contraction'') (DictV [(NodeV v, DictV v_data)]))
                           | Some (DictV contraction) \<Rightarrow>
                               Inr (set_node_attr H u (StrV ''contraction'')
                                      (DictV (AList.update (NodeV v) (DictV v_data) contraction)))
                           | Some _ \<Rightarrow> Inl TypeError))))"

text \<open>\<^verbatim>\<open>contracted_edge\<close> (lines 411 to 414).\<close>

definition contracted_edge :: "'n pygraph \<Rightarrow> 'n \<times> 'n \<Rightarrow> bool \<Rightarrow> error + 'n pygraph" where
  "contracted_edge G edge self_loops =
     (case edge of (u, v) \<Rightarrow>
        if \<not> has_edge G u v then Inl ValueError
        else contracted_nodes G u v self_loops)"

subsection \<open>\<^verbatim>\<open>blockmodel\<close>\<close>

text \<open>\<^verbatim>\<open>blockmodel\<close> (lines 467 to 471).\<close>

definition blockmodel :: "'n::linorder pygraph \<Rightarrow> 'n list list \<Rightarrow> bool \<Rightarrow> error + 'n qgraph" where
  "blockmodel G partition' multigraph =
     (if multigraph
      then quotient_graph G (Blocks partition') None None None True (Some MultiGraph)
      else quotient_graph G (Blocks partition') None None None True None)"

subsection \<open>Predicates of the specification\<close>

text \<open>
  A relation is an equivalence on a set when it is reflexive, symmetric and transitive
  there. \<open>good_blocks r S blocks\<close> is the invariant of the loop of
  \<^verbatim>\<open>equivalence_classes\<close> after the elements \<open>S\<close>: every block is the class of its
  first element, the first elements of two blocks are unrelated, and every element is
  in a block.
\<close>

definition equivalence_on :: "'a set \<Rightarrow> ('a \<Rightarrow> 'a \<Rightarrow> bool) \<Rightarrow> bool" where
  "equivalence_on S r \<longleftrightarrow>
     (\<forall>x\<in>S. r x x) \<and>
     (\<forall>x\<in>S. \<forall>y\<in>S. r x y \<longrightarrow> r y x) \<and>
     (\<forall>x\<in>S. \<forall>y\<in>S. \<forall>z\<in>S. r x y \<longrightarrow> r y z \<longrightarrow> r x z)"

definition good_blocks :: "('a \<Rightarrow> 'a \<Rightarrow> bool) \<Rightarrow> 'a set \<Rightarrow> 'a list list \<Rightarrow> bool" where
  "good_blocks r S blocks \<longleftrightarrow>
     distinct blocks \<and>
     (\<forall>b\<in>set blocks. b \<noteq> [] \<and> hd b \<in> S \<and> set b = {y\<in>S. r (hd b) y}) \<and>
     (\<forall>b\<in>set blocks. \<forall>c\<in>set blocks. r (hd b) (hd c) \<longrightarrow> b = c) \<and>
     (\<forall>y\<in>S. \<exists>b\<in>set blocks. y \<in> set b)"

subsection \<open>The parts of \<^verbatim>\<open>quotient_graph\<close>\<close>

text \<open>
  Names for the parts of the body of \<^verbatim>\<open>quotient_graph\<close>, for an explicit block
  collection: the check of line 225, the graph with the blocks as nodes (lines 227 to
  237), the block pairs (line 255), the edge relation and edge data in force, the list
  of edges that is added (lines 258 to 267) and the relabelling (lines 272 to 277).
\<close>

definition block_check :: "('n, 'nd, 'ed) graph \<Rightarrow> 'n list list \<Rightarrow> bool" where
  "block_check G P \<longleftrightarrow> (\<forall>v\<in>set (nodes_list G). length (filter (\<lambda>b. v \<in> set b) P) = 1)"

definition quotient_nodes :: "'n pygraph \<Rightarrow> 'n list list \<Rightarrow> ('n set \<Rightarrow> 'n block_attrs) option \<Rightarrow> graph_class option
    \<Rightarrow> ('n set, 'n block_attrs, 'n attrs) graph" where
  "quotient_nodes G P node_data create_using =
     add_nodes_from (case create_using of Some c \<Rightarrow> empty_graph c | None \<Rightarrow> empty_graph (cls G))
       (map (\<lambda>b. (b, (case node_data of None \<Rightarrow> default_node_data G | Some f \<Rightarrow> f) b)) (map set P))"

definition block_pairs_of :: "('b, 'nd, 'ed) graph \<Rightarrow> ('b \<times> 'b) list" where
  "block_pairs_of H = (if is_directed H then permutations2 (nodes_list H) else combinations2 (nodes_list H))"

definition edge_relation_of :: "'n::linorder pygraph \<Rightarrow> ('n set \<Rightarrow> 'n set \<Rightarrow> bool) option \<Rightarrow> 'n set \<Rightarrow> 'n set \<Rightarrow> error + bool" where
  "edge_relation_of G edge_relation = (case edge_relation of None \<Rightarrow> default_edge_relation G | Some f \<Rightarrow> (\<lambda>b c. Inr (f b c)))"

definition edge_data_of :: "'n pygraph \<Rightarrow> ('n set \<Rightarrow> 'n set \<Rightarrow> 'n attrs) option \<Rightarrow> 'n set \<Rightarrow> 'n set \<Rightarrow> error + 'n attrs" where
  "edge_data_of G edge_data = (case edge_data of None \<Rightarrow> default_edge_data G | Some f \<Rightarrow> (\<lambda>b c. Inr (f b c)))"

definition quotient_edges :: "'n::linorder pygraph \<Rightarrow> ('n set, 'n block_attrs, 'n attrs) graph \<Rightarrow> ('n set \<Rightarrow> 'n set \<Rightarrow> bool) option
    \<Rightarrow> ('n set \<Rightarrow> 'n set \<Rightarrow> 'n attrs) option \<Rightarrow> error + ('n set \<times> 'n set \<times> 'n attrs) list" where
  "quotient_edges G H edge_relation edge_data =
     (if is_multigraph H then multigraph_edges G (edge_relation_of G edge_relation) (block_pairs_of H)
      else simple_edges (edge_relation_of G edge_relation) (edge_data_of G edge_data) (block_pairs_of H))"

definition relabelling :: "bool \<Rightarrow> 'n list list \<Rightarrow> 'n set \<Rightarrow> 'n qnode" where
  "relabelling relabel P =
     (if relabel
      then (\<lambda>b. case map_of (block_labels (map set P)) b of Some i \<Rightarrow> Label i | None \<Rightarrow> Block b)
      else Block)"

subsection \<open>The specification's reading of \<^verbatim>\<open>blockmodel\<close>, and example graphs\<close>

text \<open>
  Section 4.6 of the specification: the block model is the relabelled quotient whose
  template is a multigraph matching the variant of \<open>G\<close> when the flag is set, and a
  simple graph (here: of the direction of \<open>G\<close>) otherwise.
\<close>

definition blockModel_spec :: "'n::linorder pygraph \<Rightarrow> 'n list list \<Rightarrow> bool \<Rightarrow> error + 'n qgraph" where
  "blockModel_spec G P m =
     quotient_graph G (Blocks P) None None None True
       (Some (if m then (if is_directed G then MultiDiGraph else MultiGraph)
              else (if is_directed G then DiGraph else Graph)))"

text \<open>
  Examples: an undirected path on three nodes whose first edge has weight 5; a directed
  graph with the single arc from 1 to 0; an undirected graph with the edge between 0 and
  1 and a self-loop on 1.
\<close>

definition example_path :: "nat pygraph" where
  "example_path = \<lparr>cls = Graph, node = [(0, []), (1, []), (2, [])],
      edgelist = [(0, 1, 0, [(StrV ''weight'', IntV 5)]), (1, 2, 0, [])]\<rparr>"

definition example_arc :: "nat pygraph" where
  "example_arc = \<lparr>cls = DiGraph, node = [(0, []), (1, [])], edgelist = [(1, 0, 0, [])]\<rparr>"

definition example_loop :: "nat pygraph" where
  "example_loop = \<lparr>cls = Graph, node = [(0, []), (1, [])], edgelist = [(0, 1, 0, []), (1, 1, 0, [])]\<rparr>"

subsection \<open>Partitions, weights and adjacency of blocks\<close>

text \<open>
  A partition in the sense of section 3 of the specification: every block is a
  non-empty set of nodes of \<open>G\<close>, and every node of \<open>G\<close> is in exactly one block.
  \<open>int_weights G\<close> says that the weight of every edge of \<open>G\<close> (1 when the attribute is
  missing) is an integer. \<open>append_new\<close> adds a key to the keys of a dictionary.
\<close>

definition valid_partition :: "('n, 'nd, 'ed) graph \<Rightarrow> 'n list list \<Rightarrow> bool" where
  "valid_partition G P \<longleftrightarrow>
     (\<forall>b\<in>set P. b \<noteq> [] \<and> set b \<subseteq> set (nodes_list G)) \<and>
     (\<forall>v\<in>set (nodes_list G). length (filter (\<lambda>b. v \<in> set b) P) = 1)"

definition int_weights :: "'n pygraph \<Rightarrow> bool" where
  "int_weights G \<longleftrightarrow> (\<forall>(a, b, k, d)\<in>set (edgelist G). \<exists>i. weight_or_1 d = IntV i)"

definition append_new :: "'a list \<Rightarrow> 'a \<Rightarrow> 'a list" where
  "append_new xs x = (if x \<in> set xs then xs else xs @ [x])"

text \<open>
  The weight of an edge as an integer (1 when the attribute is missing), the edges that
  cross between two blocks, the sum of their weights, and the edge relation in force:
  the caller's, or by default that some node of \<open>b\<close> is adjacent to some node of \<open>c\<close>.
\<close>

definition weight_int :: "'n attrs \<Rightarrow> int" where
  "weight_int d = (case map_of d (StrV ''weight'') of None \<Rightarrow> 1 | Some (IntV i) \<Rightarrow> i | Some _ \<Rightarrow> 0)"

definition crosses :: "'n set \<Rightarrow> 'n set \<Rightarrow> 'n \<Rightarrow> 'n \<Rightarrow> bool" where
  "crosses b c u v \<longleftrightarrow> (u \<in> b \<and> v \<in> c) \<or> (u \<in> c \<and> v \<in> b)"

definition crossing_weight :: "'n pygraph \<Rightarrow> 'n set \<Rightarrow> 'n set \<Rightarrow> int" where
  "crossing_weight G b c =
     sum_list (map (\<lambda>(u, v, k, d). weight_int d) (filter (\<lambda>(u, v, k, d). crosses b c u v) (edgelist G)))"

definition blocks_related :: "'n pygraph \<Rightarrow> ('n set \<Rightarrow> 'n set \<Rightarrow> bool) option \<Rightarrow> 'n set \<Rightarrow> 'n set \<Rightarrow> bool" where
  "blocks_related G edge_relation b c =
     (case edge_relation of None \<Rightarrow> (\<exists>u\<in>b. \<exists>v\<in>c. adjacent G u v) | Some f \<Rightarrow> f b c)"

text \<open>An undirected multigraph with two parallel edges between the nodes 0 and 1.\<close>

definition example_parallel :: "nat pygraph" where
  "example_parallel = \<lparr>cls = MultiGraph, node = [(0, []), (1, [])],
      edgelist = [(0, 1, 0, [(StrV ''weight'', IntV 1)]), (0, 1, 1, [(StrV ''weight'', IntV 2)])]\<rparr>"

subsection \<open>The edges of a quotient graph that is not a multigraph\<close>

text \<open>
  The block pairs of line 255 for a list of blocks, the edge data in force for a pair of
  blocks (the caller's, or by default the single attribute \<open>weight\<close> with the sum of the
  weights of the crossing edges), and when two pairs of nodes are the end points of the
  same edge (in an undirected graph also in the other order).
\<close>

definition block_pairs :: "bool \<Rightarrow> 'b list \<Rightarrow> ('b \<times> 'b) list" where
  "block_pairs dir xs = (if dir then permutations2 xs else combinations2 xs)"

definition edge_attrs :: "'n pygraph \<Rightarrow> ('n set \<Rightarrow> 'n set \<Rightarrow> 'n attrs) option \<Rightarrow> 'n set \<Rightarrow> 'n set \<Rightarrow> 'n attrs" where
  "edge_attrs G edge_data b c =
     (case edge_data of Some f \<Rightarrow> f b c | None \<Rightarrow> [(StrV ''weight'', IntV (crossing_weight G b c))])"

definition same_ends :: "bool \<Rightarrow> 'a \<times> 'a \<Rightarrow> 'a \<times> 'a \<Rightarrow> bool" where
  "same_ends dir p q \<longleftrightarrow> p = q \<or> (\<not> dir \<and> p = (snd q, fst q))"

subsection \<open>Empty blocks\<close>

text \<open>
  The blocks of a collection that are not empty, and the edges that
  \<^verbatim>\<open>quotient_graph\<close> computes for one pair of blocks (lines 259 to 261 for a
  multigraph, line 266 otherwise).
\<close>

definition nonempty_blocks :: "'n list list \<Rightarrow> 'n list list" where
  "nonempty_blocks P = filter (\<lambda>b. b \<noteq> []) P"

definition pair_edges :: "'n::linorder pygraph \<Rightarrow> bool \<Rightarrow> ('n set \<Rightarrow> 'n set \<Rightarrow> bool) option
    \<Rightarrow> ('n set \<Rightarrow> 'n set \<Rightarrow> 'n attrs) option \<Rightarrow> 'n set \<times> 'n set \<Rightarrow> error + ('n set \<times> 'n set \<times> 'n attrs) list" where
  "pair_edges G multi er ed =
     (\<lambda>(b, c). case edge_relation_of G er b c of
                  Inl e \<Rightarrow> Inl e
                | Inr t \<Rightarrow>
                    if t
                    then (if multi then crossing_edges G b c
                          else (case edge_data_of G ed b c of Inl e \<Rightarrow> Inl e | Inr d \<Rightarrow> Inr [(b, c, d)]))
                    else Inr [])"

subsection \<open>Graph objects in a store\<close>

text \<open>
  The functions above return graphs as values. To state which graph objects a call
  changes, the same functions are written once more over a store of graph objects. A
  graph object is a cell of the store and a reference to it is its index. There is one
  list of cells for each type of graph: the graphs over nodes (the argument \<^verbatim>\<open>G\<close> and
  the copies \<^verbatim>\<open>G.copy()\<close>), the graphs over blocks (the \<^verbatim>\<open>H\<close> of
  \<^verbatim>\<open>quotient_graph\<close>) and the relabelled graphs (the result of
  \<^verbatim>\<open>nx.relabel_nodes\<close>). A method that mutates a graph (\<^verbatim>\<open>add_nodes_from\<close>,
  \<^verbatim>\<open>add_edges_from\<close>, \<^verbatim>\<open>remove_node\<close>, an assignment to \<^verbatim>\<open>H.node[u]\<close>)
  overwrites the cell of that graph; a method that reads a graph reads its cell in the
  store of that moment.
\<close>

datatype result_ref = BlockRef nat | LabelRef nat

record 'n store =
  graphs :: "'n pygraph list"
  block_graphs :: "('n set, 'n block_attrs, 'n attrs) graph list"
  label_graphs :: "'n qgraph list"

text \<open>
  Modelled from the spec: \<^verbatim>\<open>G.copy()\<close>, a full copy: a new cell with the value of
  the cell of \<^verbatim>\<open>G\<close>.
\<close>

definition copy_graph :: "'n store \<Rightarrow> nat \<Rightarrow> 'n store \<times> nat" where
  "copy_graph s g = (s\<lparr>graphs := graphs s @ [graphs s ! g]\<rparr>, length (graphs s))"

text \<open>A mutating method \<open>f\<close> called on the graph object \<open>h\<close>.\<close>

definition update_graph :: "'n store \<Rightarrow> nat \<Rightarrow> ('n pygraph \<Rightarrow> 'n pygraph) \<Rightarrow> 'n store" where
  "update_graph s h f = s\<lparr>graphs := (graphs s)[h := f (graphs s ! h)]\<rparr>"

definition update_block_graph :: "'n store \<Rightarrow> nat
    \<Rightarrow> (('n set, 'n block_attrs, 'n attrs) graph \<Rightarrow> ('n set, 'n block_attrs, 'n attrs) graph) \<Rightarrow> 'n store" where
  "update_block_graph s h f = s\<lparr>block_graphs := (block_graphs s)[h := f (block_graphs s ! h)]\<rparr>"

text \<open>
  \<^verbatim>\<open>contracted_nodes\<close> (lines 328 to 345) on the store. \<^verbatim>\<open>H = G.copy()\<close> is a
  new cell. \<^verbatim>\<open>new_edges\<close> is a generator over the edges of \<^verbatim>\<open>G\<close>: it reads the cell
  of \<^verbatim>\<open>G\<close> when \<^verbatim>\<open>H.add_edges_from\<close> consumes it, which is after
  \<^verbatim>\<open>H.remove_node(v)\<close>; so it is a function of the store. \<^verbatim>\<open>H.is_directed()\<close> is
  evaluated where the source evaluates it, before the node is removed. The result is the
  reference \<^verbatim>\<open>H\<close>; when the call raises, the store is the one of that moment.
\<close>

definition contracted_nodes_st :: "'n store \<Rightarrow> nat \<Rightarrow> 'n \<Rightarrow> 'n \<Rightarrow> bool \<Rightarrow> 'n store \<times> (error + nat)" where
  "contracted_nodes_st s G u v self_loops =
     (case copy_graph s G of (s, H) \<Rightarrow>
        let directed = is_directed (graphs s ! H);
            new_edges = (\<lambda>s.
              if directed
              then map (\<lambda>(w, x, d). (w, u, d))
                     (filter (\<lambda>(w, x, d). self_loops \<or> w \<noteq> u) (in_edges (graphs s ! G) v))
                   @ map (\<lambda>(x, w, d). (u, w, d))
                       (filter (\<lambda>(x, w, d). self_loops \<or> w \<noteq> u) (out_edges (graphs s ! G) v))
              else map (\<lambda>(x, w, d). (u, w, d))
                     (filter (\<lambda>(x, w, d). self_loops \<or> w \<noteq> u) (edges (graphs s ! G) {v})))
        in case map_of (node (graphs s ! H)) v of
             None \<Rightarrow> (s, Inl KeyError)
           | Some v_data \<Rightarrow>
               (case remove_node (graphs s ! H) v of
                  Inl e \<Rightarrow> (s, Inl e)
                | Inr H' \<Rightarrow>
                    let s = update_graph s H (\<lambda>_. H');
                        s = update_graph s H (\<lambda>H'. add_edges_from H' (new_edges s))
                    in (case map_of (node (graphs s ! H)) u of
                          None \<Rightarrow> (s, Inl KeyError)
                        | Some u_data \<Rightarrow>
                            (case map_of u_data (StrV ''contraction'') of
                               None \<Rightarrow>
                                 (update_graph s H (\<lambda>H'. set_node_attr H' u (StrV ''contraction'')
                                                           (DictV [(NodeV v, DictV v_data)])),
                                  Inr H)
                             | Some (DictV contraction) \<Rightarrow>
                                 (update_graph s H (\<lambda>H'. set_node_attr H' u (StrV ''contraction'')
                                                           (DictV (AList.update (NodeV v) (DictV v_data) contraction))),
                                  Inr H)
                             | Some _ \<Rightarrow> (s, Inl TypeError)))))"

text \<open>\<^verbatim>\<open>contracted_edge\<close> (lines 411 to 414) on the store.\<close>

definition contracted_edge_st :: "'n store \<Rightarrow> nat \<Rightarrow> 'n \<times> 'n \<Rightarrow> bool \<Rightarrow> 'n store \<times> (error + nat)" where
  "contracted_edge_st s G edge self_loops =
     (case edge of (u, v) \<Rightarrow>
        if \<not> has_edge (graphs s ! G) u v then (s, Inl ValueError)
        else contracted_nodes_st s G u v self_loops)"

text \<open>
  Lines 220 to 222 of \<^verbatim>\<open>quotient_graph\<close>: a partition given as a function is
  replaced by the equivalence classes of the nodes of \<^verbatim>\<open>G\<close>.
\<close>

definition resolve_partition :: "'n::linorder pygraph \<Rightarrow> 'n partition_arg \<Rightarrow> error + 'n list list" where
  "resolve_partition G partition' =
     (case partition' of
        Relation r \<Rightarrow>
          (case equivalence_classes (nodes_list G) r of
             Inl e \<Rightarrow> Inl e
           | Inr classes \<Rightarrow> Inr (map sorted_list_of_set classes))
      | Blocks blocks \<Rightarrow> Inr blocks)"

text \<open>
  \<^verbatim>\<open>quotient_graph\<close> (lines 220 to 278) on the store. \<^verbatim>\<open>H = type(create_using)()\<close>
  or \<^verbatim>\<open>H = type(G)()\<close> is a new cell of graphs over blocks (line 227);
  \<^verbatim>\<open>H.add_nodes_from\<close> (line 237) and \<^verbatim>\<open>H.add_edges_from\<close> (lines 258 to 267)
  overwrite that cell, and the edges are computed from the cell of \<^verbatim>\<open>G\<close> and the cell
  of \<^verbatim>\<open>H\<close> once its nodes are added. With \<^verbatim>\<open>relabel\<close> the result is a new cell of
  relabelled graphs (lines 272 to 277), otherwise it is the reference \<^verbatim>\<open>H\<close>.
\<close>

definition quotient_graph_st :: "'n::linorder store \<Rightarrow> nat \<Rightarrow> 'n partition_arg \<Rightarrow> ('n set \<Rightarrow> 'n set \<Rightarrow> bool) option
    \<Rightarrow> ('n set \<Rightarrow> 'n block_attrs) option \<Rightarrow> ('n set \<Rightarrow> 'n set \<Rightarrow> 'n attrs) option \<Rightarrow> bool
    \<Rightarrow> graph_class option \<Rightarrow> 'n store \<times> (error + result_ref)" where
  "quotient_graph_st s G partition' edge_relation node_data edge_data relabel create_using =
     (case resolve_partition (graphs s ! G) partition' of
        Inl e \<Rightarrow> (s, Inl e)
      | Inr P \<Rightarrow>
          if \<not> block_check (graphs s ! G) P
          then (s, Inl NetworkXException)
          else
            let H = length (block_graphs s);
                s = s\<lparr>block_graphs := block_graphs s @
                       [case create_using of Some c \<Rightarrow> empty_graph c | None \<Rightarrow> empty_graph (cls (graphs s ! G))]\<rparr>;
                s = update_block_graph s H
                      (\<lambda>H'. add_nodes_from H'
                         (map (\<lambda>b. (b, (case node_data of None \<Rightarrow> default_node_data (graphs s ! G) | Some f \<Rightarrow> f) b))
                            (map set P)))
            in (case quotient_edges (graphs s ! G) (block_graphs s ! H) edge_relation edge_data of
                  Inl e \<Rightarrow> (s, Inl e)
                | Inr es \<Rightarrow>
                    let s = update_block_graph s H (\<lambda>H'. add_edges_from H' es)
                    in if relabel
                       then (s\<lparr>label_graphs := label_graphs s @
                                [relabel_nodes (block_graphs s ! H) (relabelling True P)]\<rparr>,
                             Inr (LabelRef (length (label_graphs s))))
                       else (s, Inr (BlockRef H))))"

text \<open>A store whose only graph object is the path on the nodes 0, 1 and 2.\<close>

definition example_store :: "nat store" where
  "example_store = \<lparr>graphs = [example_path], block_graphs = [], label_graphs = []\<rparr>"

section \<open>Theorems\<close>

subsection \<open>The loop of \<^verbatim>\<open>equivalence_classes\<close>\<close>

lemma arbitrary_element_hd: "b \<noteq> [] \<Longrightarrow> arbitrary_element b = Inr (hd b)"
  by (cases b) (simp_all add: arbitrary_element_def)

lemma scan_blocks_fresh:
  "\<forall>b\<in>set blocks. b \<noteq> [] \<and> \<not> r (hd b) y \<Longrightarrow> scan_blocks r y blocks = Inr (blocks @ [[y]])"
  by (induction blocks) (simp_all add: arbitrary_element_hd)

lemma scan_blocks_found:
  "\<forall>b\<in>set blocks. b \<noteq> [] \<Longrightarrow> \<exists>b\<in>set blocks. r (hd b) y \<Longrightarrow>
   \<exists>pre b suf. blocks = pre @ b # suf \<and> r (hd b) y \<and> (\<forall>c\<in>set pre. \<not> r (hd c) y) \<and>
      scan_blocks r y blocks = Inr (pre @ (b @ [y]) # suf)"
proof (induction blocks)
  case Nil
  then show ?case by simp
next
  case (Cons a blocks)
  show ?case
  proof (cases "r (hd a) y")
    case True
    with Cons.prems(1) have "scan_blocks r y (a # blocks) = Inr ([] @ (a @ [y]) # blocks)"
      by (simp add: arbitrary_element_hd)
    with True show ?thesis by (metis append_Nil empty_iff list.set(1))
  next
    case False
    with Cons.prems obtain pre b suf where
      h: "blocks = pre @ b # suf" "r (hd b) y" "\<forall>c\<in>set pre. \<not> r (hd c) y"
         "scan_blocks r y blocks = Inr (pre @ (b @ [y]) # suf)"
      using Cons.IH by auto
    have "a # blocks = (a # pre) @ b # suf" using h(1) by simp
    moreover have "\<forall>c\<in>set (a # pre). \<not> r (hd c) y" using h(3) False by simp
    moreover have "scan_blocks r y (a # blocks) = Inr ((a # pre) @ (b @ [y]) # suf)"
      using False Cons.prems(1) h(4) by (simp add: arbitrary_element_hd)
    ultimately show ?thesis using h(2) by blast
  qed
qed


lemma scan_blocks_good:
  assumes g: "good_blocks r S blocks" and e: "equivalence_on (insert y S) r"
  shows "\<exists>blocks'. scan_blocks r y blocks = Inr blocks' \<and> good_blocks r (insert y S) blocks'"
proof -
  from g have ne: "\<forall>b\<in>set blocks. b \<noteq> []" and hdS: "\<forall>b\<in>set blocks. hd b \<in> S"
    and cls: "\<forall>b\<in>set blocks. set b = {z\<in>S. r (hd b) z}"
    and sep: "\<forall>b\<in>set blocks. \<forall>c\<in>set blocks. r (hd b) (hd c) \<longrightarrow> b = c"
    and cov: "\<forall>z\<in>S. \<exists>b\<in>set blocks. z \<in> set b" and dist: "distinct blocks"
    by (auto simp: good_blocks_def)
  from e have refl: "\<And>x. x \<in> insert y S \<Longrightarrow> r x x"
    and sym: "\<And>x z. x \<in> insert y S \<Longrightarrow> z \<in> insert y S \<Longrightarrow> r x z \<Longrightarrow> r z x"
    and trans: "\<And>x z w. x \<in> insert y S \<Longrightarrow> z \<in> insert y S \<Longrightarrow> w \<in> insert y S \<Longrightarrow> r x z \<Longrightarrow> r z w \<Longrightarrow> r x w"
    unfolding equivalence_on_def by blast+
  show ?thesis
  proof (cases "\<exists>b\<in>set blocks. r (hd b) y")
    case False
    then have s: "scan_blocks r y blocks = Inr (blocks @ [[y]])"
      using ne by (simp add: scan_blocks_fresh)
    have yS: "y \<notin> S"
    proof
      assume "y \<in> S"
      then obtain b where "b \<in> set blocks" "y \<in> set b" using cov by blast
      then have "r (hd b) y" using cls by blast
      with \<open>b \<in> set blocks\<close> False show False by blast
    qed
    have n1: "\<forall>b\<in>set blocks. \<not> r y (hd b)"
      using False sym hdS by (metis insertCI)
    have "good_blocks r (insert y S) (blocks @ [[y]])"
      unfolding good_blocks_def
    proof (intro conjI)
      show "distinct (blocks @ [[y]])" using dist yS hdS by auto
      show "\<forall>b\<in>set (blocks @ [[y]]). b \<noteq> [] \<and> hd b \<in> insert y S \<and> set b = {z \<in> insert y S. r (hd b) z}"
      proof
        fix b assume "b \<in> set (blocks @ [[y]])"
        then consider "b \<in> set blocks" | "b = [y]" by auto
        then show "b \<noteq> [] \<and> hd b \<in> insert y S \<and> set b = {z \<in> insert y S. r (hd b) z}"
        proof cases
          case 1
          then have "\<not> r (hd b) y" using False by blast
          with 1 ne hdS cls show ?thesis by auto
        next
          case 2
          have "{z \<in> insert y S. r y z} = {y}"
          proof -
            have "\<And>z. z \<in> S \<Longrightarrow> \<not> r y z"
            proof
              fix z assume "z \<in> S" "r y z"
              then obtain b where b: "b \<in> set blocks" "z \<in> set b" using cov by blast
              then have "r (hd b) z" using cls by blast
              then have "r z (hd b)" using sym b hdS \<open>z \<in> S\<close> by (metis insertCI)
              then have "r y (hd b)" using trans[of y z "hd b"] \<open>r y z\<close> \<open>z \<in> S\<close> b hdS by blast
              with n1 b show False by blast
            qed
            then show ?thesis using refl by auto
          qed
          with 2 show ?thesis by simp
        qed
      qed
      show "\<forall>b\<in>set (blocks @ [[y]]). \<forall>c\<in>set (blocks @ [[y]]). r (hd b) (hd c) \<longrightarrow> b = c"
        using sep False n1 by auto
      show "\<forall>z\<in>insert y S. \<exists>b\<in>set (blocks @ [[y]]). z \<in> set b"
        using cov by auto
    qed
    with s show ?thesis by blast
  next
    case True
    then obtain pre b suf where
      h: "blocks = pre @ b # suf" "r (hd b) y" "\<forall>c\<in>set pre. \<not> r (hd c) y"
         "scan_blocks r y blocks = Inr (pre @ (b @ [y]) # suf)"
      using scan_blocks_found[of blocks r y] ne by blast
    have bIn: "b \<in> set blocks" using h(1) by simp
    have bne: "b \<noteq> []" using ne bIn by blast
    have hdb: "hd (b @ [y]) = hd b" using bne by simp
    have others: "\<And>c. c \<in> set pre \<union> set suf \<Longrightarrow> c \<in> set blocks \<and> c \<noteq> b"
      using h(1) dist by auto
    have unrel: "\<And>c. c \<in> set pre \<union> set suf \<Longrightarrow> \<not> r (hd c) y"
    proof
      fix c assume c: "c \<in> set pre \<union> set suf" "r (hd c) y"
      then have cb: "c \<in> set blocks" "c \<noteq> b" using others by blast+
      have "r y (hd b)" using sym[of "hd b" y] h(2) hdS bIn by blast
      then have "r (hd c) (hd b)" using trans[of "hd c" y "hd b"] c(2) hdS cb(1) bIn by blast
      with sep cb bIn show False by blast
    qed
    have "good_blocks r (insert y S) (pre @ (b @ [y]) # suf)"
      unfolding good_blocks_def
    proof (intro conjI)
      have "b @ [y] \<notin> set blocks"
      proof
        assume a: "b @ [y] \<in> set blocks"
        have "r (hd b) (hd (b @ [y]))" using hdb refl hdS bIn by (metis insertCI)
        with sep bIn a have "b = b @ [y]" by blast
        then show False by simp
      qed
      then show "distinct (pre @ (b @ [y]) # suf)" using dist h(1) by auto
      show "\<forall>c\<in>set (pre @ (b @ [y]) # suf). c \<noteq> [] \<and> hd c \<in> insert y S \<and> set c = {z \<in> insert y S. r (hd c) z}"
      proof
        fix c assume "c \<in> set (pre @ (b @ [y]) # suf)"
        then consider "c \<in> set pre \<union> set suf" | "c = b @ [y]" by auto
        then show "c \<noteq> [] \<and> hd c \<in> insert y S \<and> set c = {z \<in> insert y S. r (hd c) z}"
        proof cases
          case 1
          then have "c \<in> set blocks" "\<not> r (hd c) y" using others unrel by blast+
          with ne hdS cls show ?thesis by auto
        next
          case 2
          have "set b = {z\<in>S. r (hd b) z}" using cls bIn by blast
          then have "set (b @ [y]) = {z \<in> insert y S. r (hd b) z}" using h(2) by auto
          with 2 hdb hdS bIn show ?thesis by auto
        qed
      qed
      show "\<forall>c\<in>set (pre @ (b @ [y]) # suf). \<forall>d\<in>set (pre @ (b @ [y]) # suf). r (hd c) (hd d) \<longrightarrow> c = d"
      proof (intro ballI impI)
        fix c d assume cd: "c \<in> set (pre @ (b @ [y]) # suf)" "d \<in> set (pre @ (b @ [y]) # suf)" "r (hd c) (hd d)"
        define c' where "c' = (if c = b @ [y] then b else c)"
        define d' where "d' = (if d = b @ [y] then b else d)"
        have c': "c' \<in> set blocks" "hd c' = hd c" using cd(1) h(1) hdb by (auto simp: c'_def)
        have d': "d' \<in> set blocks" "hd d' = hd d" using cd(2) h(1) hdb by (auto simp: d'_def)
        have eq: "c' = d'" using sep c' d' cd(3) by metis
        have cb: "c \<noteq> b" "d \<noteq> b" using cd(1,2) h(1) dist by auto
        show "c = d" using eq cb by (auto simp: c'_def d'_def split: if_splits)
      qed
      show "\<forall>z\<in>insert y S. \<exists>c\<in>set (pre @ (b @ [y]) # suf). z \<in> set c"
      proof
        fix z assume "z \<in> insert y S"
        then consider "z = y" | "z \<in> S" by blast
        then show "\<exists>c\<in>set (pre @ (b @ [y]) # suf). z \<in> set c"
        proof cases
          case 1 then show ?thesis by auto
        next
          case 2
          then obtain c where "c \<in> set blocks" "z \<in> set c" using cov by blast
          then show ?thesis using h(1) by auto
        qed
      qed
    qed
    with h(4) show ?thesis by blast
  qed
qed

lemma equivalence_on_mono: "equivalence_on S r \<Longrightarrow> T \<subseteq> S \<Longrightarrow> equivalence_on T r"
  unfolding equivalence_on_def by (meson subsetD)

lemma classes_loop_good:
  "good_blocks r S blocks \<Longrightarrow> equivalence_on (S \<union> set ys) r \<Longrightarrow>
   \<exists>blocks'. classes_loop r ys blocks = Inr blocks' \<and> good_blocks r (S \<union> set ys) blocks'"
proof (induction ys arbitrary: S blocks)
  case Nil
  then show ?case by simp
next
  case (Cons y ys)
  have "equivalence_on (insert y S) r"
    using Cons.prems(2) by (rule equivalence_on_mono) auto
  then obtain b1 where b1: "scan_blocks r y blocks = Inr b1" "good_blocks r (insert y S) b1"
    using scan_blocks_good[OF Cons.prems(1)] by blast
  have "equivalence_on (insert y S \<union> set ys) r" using Cons.prems(2) by simp
  from Cons.IH[OF b1(2) this] b1(1) show ?case by simp
qed

lemma good_blocks_Nil: "good_blocks r {} []"
  by (simp add: good_blocks_def)

lemma good_blocks_partition:
  assumes "good_blocks r S blocks" and "equivalence_on S r" and "x \<in> S"
  shows "\<exists>!B. B \<in> set (map set blocks) \<and> x \<in> B"
proof -
  from assms(1) have hdS: "\<forall>b\<in>set blocks. hd b \<in> S"
    and cls: "\<forall>b\<in>set blocks. set b = {z\<in>S. r (hd b) z}"
    and sep: "\<forall>b\<in>set blocks. \<forall>c\<in>set blocks. r (hd b) (hd c) \<longrightarrow> b = c"
    and cov: "\<forall>z\<in>S. \<exists>b\<in>set blocks. z \<in> set b"
    by (auto simp: good_blocks_def)
  from assms(2) have sym: "\<And>x z. x \<in> S \<Longrightarrow> z \<in> S \<Longrightarrow> r x z \<Longrightarrow> r z x"
    and trans: "\<And>x z w. x \<in> S \<Longrightarrow> z \<in> S \<Longrightarrow> w \<in> S \<Longrightarrow> r x z \<Longrightarrow> r z w \<Longrightarrow> r x w"
    unfolding equivalence_on_def by blast+
  obtain b where b: "b \<in> set blocks" "x \<in> set b" using cov assms(3) by blast
  show ?thesis
  proof (rule ex1I[of _ "set b"])
    show "set b \<in> set (map set blocks) \<and> x \<in> set b" using b by auto
  next
    fix B assume "B \<in> set (map set blocks) \<and> x \<in> B"
    then obtain c where c: "c \<in> set blocks" "B = set c" "x \<in> set c" by auto
    have "r (hd b) x" "r (hd c) x" using cls b c by blast+
    then have "r x (hd c)" using sym hdS c(1) assms(3) by blast
    then have "r (hd b) (hd c)" using trans[of "hd b" x "hd c"] \<open>r (hd b) x\<close> hdS b(1) c(1) assms(3) by blast
    then show "B = set b" using sep b(1) c(1,2) by blast
  qed
qed

lemma good_blocks_classes:
  assumes "good_blocks r S blocks" and "equivalence_on S r"
  shows "set (map set blocks) = (\<lambda>x. {z\<in>S. r x z}) ` S"
proof -
  from assms(1) have hdS: "\<forall>b\<in>set blocks. hd b \<in> S"
    and cls: "\<forall>b\<in>set blocks. set b = {z\<in>S. r (hd b) z}"
    and cov: "\<forall>z\<in>S. \<exists>b\<in>set blocks. z \<in> set b"
    by (auto simp: good_blocks_def)
  from assms(2) have sym: "\<And>x z. x \<in> S \<Longrightarrow> z \<in> S \<Longrightarrow> r x z \<Longrightarrow> r z x"
    and trans: "\<And>x z w. x \<in> S \<Longrightarrow> z \<in> S \<Longrightarrow> w \<in> S \<Longrightarrow> r x z \<Longrightarrow> r z w \<Longrightarrow> r x w"
    unfolding equivalence_on_def by blast+
  show ?thesis
  proof (intro equalityI subsetI)
    fix B assume "B \<in> set (map set blocks)"
    then obtain b where "b \<in> set blocks" "B = set b" by auto
    then show "B \<in> (\<lambda>x. {z\<in>S. r x z}) ` S" using hdS cls by blast
  next
    fix B assume "B \<in> (\<lambda>x. {z\<in>S. r x z}) ` S"
    then obtain x where x: "x \<in> S" "B = {z\<in>S. r x z}" by blast
    then obtain b where b: "b \<in> set blocks" "x \<in> set b" using cov by blast
    then have hx: "r (hd b) x" "hd b \<in> S" using cls hdS by blast+
    have "{z\<in>S. r x z} = {z\<in>S. r (hd b) z}"
      using hx x(1) sym trans by (metis (no_types, lifting))
    then show "B \<in> set (map set blocks)" using x(2) cls b(1) by auto
  qed
qed

text \<open>
  C8: for a relation that is reflexive, symmetric and transitive on the elements,
  \<^verbatim>\<open>equivalence_classes\<close> returns blocks (none of them empty, no block twice) whose
  union is the set of the elements, every element lies in exactly one block, two
  different blocks are disjoint, and every other list of the same elements (in any
  order, with any repetitions) gives the same set of blocks.
\<close>

theorem equivalence_classes_partition:
  assumes "equivalence_on (set xs) r"
  shows "\<exists>P. equivalence_classes xs r = Inr P \<and> distinct P \<and> {} \<notin> set P \<and> \<Union>(set P) = set xs
     \<and> (\<forall>x\<in>set xs. \<exists>!B. B \<in> set P \<and> x \<in> B)
     \<and> (\<forall>B\<in>set P. \<forall>C\<in>set P. B \<noteq> C \<longrightarrow> B \<inter> C = {})
     \<and> (\<forall>ys. set ys = set xs \<longrightarrow> (\<exists>Q. equivalence_classes ys r = Inr Q \<and> set Q = set P))"
proof -
  have "\<exists>blocks. classes_loop r xs [] = Inr blocks \<and> good_blocks r ({} \<union> set xs) blocks"
    by (rule classes_loop_good[OF good_blocks_Nil]) (simp add: assms)
  then obtain blocks where b: "classes_loop r xs [] = Inr blocks" "good_blocks r (set xs) blocks"
    by auto
  define P where "P = remdups (map set blocks)"
  have eq: "equivalence_classes xs r = Inr P"
    by (simp add: equivalence_classes_def b(1) P_def)
  have setP: "set P = set (map set blocks)" by (simp add: P_def)
  have cls: "set P = (\<lambda>x. {z\<in>set xs. r x z}) ` set xs"
    using good_blocks_classes[OF b(2) assms] setP by simp
  have uniq: "\<forall>x\<in>set xs. \<exists>!B. B \<in> set P \<and> x \<in> B"
    using good_blocks_partition[OF b(2) assms] setP by simp
  have sub: "\<forall>B\<in>set P. B \<subseteq> set xs" using cls by auto
  have ne: "{} \<notin> set P"
  proof
    assume "{} \<in> set P"
    then obtain c where c: "c \<in> set blocks" "set c = {}" using setP by auto
    then have "c = []" by simp
    with b(2) c(1) show False unfolding good_blocks_def by blast
  qed
  have un: "\<Union>(set P) = set xs"
  proof
    show "\<Union>(set P) \<subseteq> set xs" using sub by blast
    show "set xs \<subseteq> \<Union>(set P)" using uniq by blast
  qed
  have disj: "\<forall>B\<in>set P. \<forall>C\<in>set P. B \<noteq> C \<longrightarrow> B \<inter> C = {}"
  proof (intro ballI impI)
    fix B C assume h: "B \<in> set P" "C \<in> set P" "B \<noteq> C"
    show "B \<inter> C = {}"
    proof (rule ccontr)
      assume "B \<inter> C \<noteq> {}"
      then obtain x where x: "x \<in> B" "x \<in> C" by blast
      then have "x \<in> set xs" using sub h(1) by blast
      with uniq h x show False by blast
    qed
  qed
  have ord: "\<forall>ys. set ys = set xs \<longrightarrow> (\<exists>Q. equivalence_classes ys r = Inr Q \<and> set Q = set P)"
  proof (intro allI impI)
    fix ys :: "'a list" assume ys: "set ys = set xs"
    then have e: "equivalence_on (set ys) r" using assms by simp
    have "\<exists>blocks'. classes_loop r ys [] = Inr blocks' \<and> good_blocks r ({} \<union> set ys) blocks'"
      by (rule classes_loop_good[OF good_blocks_Nil]) (simp add: e)
    then obtain blocks' where b': "classes_loop r ys [] = Inr blocks'" "good_blocks r (set ys) blocks'"
      by auto
    have "set (remdups (map set blocks')) = (\<lambda>x. {z\<in>set ys. r x z}) ` set ys"
      using good_blocks_classes[OF b'(2) e] by simp
    then have "set (remdups (map set blocks')) = set P" using cls ys by simp
    moreover have "equivalence_classes ys r = Inr (remdups (map set blocks'))"
      by (simp add: equivalence_classes_def b'(1))
    ultimately show "\<exists>Q. equivalence_classes ys r = Inr Q \<and> set Q = set P" by blast
  qed
  have dP: "distinct P" by (simp add: P_def)
  show ?thesis
    by (intro exI[of _ P] conjI) (rule eq dP ne un uniq disj ord)+
qed

theorem equivalence_classes_partition_witness:
  "equivalence_on (set [1, 2, 3, 4, 1 :: nat]) (\<lambda>x y. x mod 2 = y mod 2)
   \<and> equivalence_classes [1, 2, 3, 4, 1 :: nat] (\<lambda>x y. x mod 2 = y mod 2) = Inr [{1, 3}, {2, 4}]
   \<and> (\<exists>P. equivalence_classes [1, 2, 3, 4, 1 :: nat] (\<lambda>x y. x mod 2 = y mod 2) = Inr P
        \<and> distinct P \<and> {} \<notin> set P \<and> \<Union>(set P) = set [1, 2, 3, 4, 1]
        \<and> (\<forall>x\<in>set [1, 2, 3, 4, 1]. \<exists>!B. B \<in> set P \<and> x \<in> B)
        \<and> (\<forall>B\<in>set P. \<forall>C\<in>set P. B \<noteq> C \<longrightarrow> B \<inter> C = {})
        \<and> (\<forall>ys. set ys = set [1, 2, 3, 4, 1] \<longrightarrow>
              (\<exists>Q. equivalence_classes ys (\<lambda>x y. x mod 2 = y mod 2) = Inr Q \<and> set Q = set P)))"
proof -
  have h: "equivalence_on (set [1, 2, 3, 4, 1 :: nat]) (\<lambda>x y. x mod 2 = y mod 2)"
    by (simp add: equivalence_on_def)
  have v: "equivalence_classes [1, 2, 3, 4, 1 :: nat] (\<lambda>x y. x mod 2 = y mod 2) = Inr [{1, 3}, {2, 4}]"
    by code_simp
  show ?thesis
    by (intro conjI) (rule h v equivalence_classes_partition[OF h])+
qed

subsection \<open>\<^verbatim>\<open>quotient_graph\<close>: the check of the partition\<close>

lemma quotient_graph_Blocks:
  "quotient_graph G (Blocks P) er nd ed rl cu =
     (if \<not> block_check G P then Inl NetworkXException
      else case quotient_edges G (quotient_nodes G P nd cu) er ed of
             Inl e \<Rightarrow> Inl e
           | Inr es \<Rightarrow> Inr (relabel_nodes (add_edges_from (quotient_nodes G P nd cu) es) (relabelling rl P)))"
  unfolding quotient_graph_def block_check_def quotient_nodes_def quotient_edges_def
    block_pairs_of_def edge_relation_of_def edge_data_of_def relabelling_def Let_def
  by (simp split: sum.splits)

lemma collect_Inl: "collect f xs = Inl e \<Longrightarrow> \<exists>x\<in>set xs. f x = Inl e"
  by (induction xs) (auto split: sum.splits)

lemma collect_Inr_iff: "(\<exists>ys. collect f xs = Inr ys) \<longleftrightarrow> (\<forall>x\<in>set xs. \<exists>ys. f x = Inr ys)"
  by (induction xs) (auto split: sum.splits)

lemma neighbor_test_error: "neighbor_test G u v = Inl e \<Longrightarrow> e = KeyError"
  by (auto simp: neighbor_test_def split: if_splits)

lemma any_neighbor_error: "any_neighbor G ps = Inl e \<Longrightarrow> e = KeyError"
  by (induction ps) (auto split: sum.splits if_splits dest: neighbor_test_error)

lemma py_sum_error: "py_sum ws a = Inl e \<Longrightarrow> e = TypeError"
  by (induction ws a rule: py_sum.induct) auto

lemma default_edge_data_error: "default_edge_data G b c = Inl e \<Longrightarrow> e = TypeError"
  by (auto simp: default_edge_data_def Let_def split: sum.splits dest: py_sum_error)

lemma edge_relation_of_error: "edge_relation_of G er b c = Inl e \<Longrightarrow> e = KeyError"
  by (auto simp: edge_relation_of_def default_edge_relation_def split: option.splits dest: any_neighbor_error)

lemma edge_data_of_error: "edge_data_of G ed b c = Inl e \<Longrightarrow> e = TypeError"
  by (auto simp: edge_data_of_def split: option.splits dest: default_edge_data_error)

lemma crossing_edges_error: "crossing_edges G b c = Inl e \<Longrightarrow> e = KeyError"
  unfolding crossing_edges_def
  by (auto dest!: collect_Inl split: sum.splits dest: neighbor_test_error)

lemma multigraph_edges_error: "multigraph_edges G (edge_relation_of G er) ps = Inl e \<Longrightarrow> e = KeyError"
  unfolding multigraph_edges_def
  by (auto dest!: collect_Inl split: sum.splits if_splits dest: edge_relation_of_error crossing_edges_error)

lemma simple_edges_error:
  "simple_edges (edge_relation_of G er) (edge_data_of G ed) ps = Inl e \<Longrightarrow> e = KeyError \<or> e = TypeError"
  unfolding simple_edges_def
  by (auto dest!: collect_Inl split: sum.splits if_splits dest: edge_relation_of_error edge_data_of_error)

lemma quotient_edges_error: "quotient_edges G H er ed = Inl e \<Longrightarrow> e = KeyError \<or> e = TypeError"
  by (auto simp: quotient_edges_def split: if_splits dest: multigraph_edges_error simple_edges_error)

text \<open>
  C3: for an explicit block collection, \<^verbatim>\<open>quotient_graph\<close> raises its
  \<^verbatim>\<open>NetworkXException\<close> exactly when some node of \<open>G\<close> is in no block or in more than
  one block, whatever the other arguments are; the check is the first thing the function
  does with the blocks, so in that case no graph is built, and when a graph is returned
  every node is in exactly one block.
\<close>

theorem quotient_graph_partition_invalid:
  "(quotient_graph G (Blocks P) er nd ed rl cu = Inl NetworkXException
      \<longleftrightarrow> (\<exists>v\<in>set (nodes_list G). length (filter (\<lambda>b. v \<in> set b) P) = 0 \<or> length (filter (\<lambda>b. v \<in> set b) P) > 1))
   \<and> ((\<exists>H. quotient_graph G (Blocks P) er nd ed rl cu = Inr H)
      \<longrightarrow> (\<forall>v\<in>set (nodes_list G). length (filter (\<lambda>b. v \<in> set b) P) = 1))"
proof -
  have c: "block_check G P \<longleftrightarrow> \<not> (\<exists>v\<in>set (nodes_list G). length (filter (\<lambda>b. v \<in> set b) P) = 0 \<or> length (filter (\<lambda>b. v \<in> set b) P) > 1)"
    unfolding block_check_def by (metis One_nat_def Suc_lessI less_numeral_extra(3) less_one not_gr_zero zero_less_one)
  show ?thesis
  proof (cases "block_check G P")
    case True
    then have "quotient_graph G (Blocks P) er nd ed rl cu \<noteq> Inl NetworkXException"
      by (auto simp: quotient_graph_Blocks split: sum.splits dest: quotient_edges_error)
    with True c show ?thesis by (auto simp: block_check_def)
  next
    case False
    then have "quotient_graph G (Blocks P) er nd ed rl cu = Inl NetworkXException"
      by (simp add: quotient_graph_Blocks)
    with False c show ?thesis by auto
  qed
qed

subsection \<open>\<^verbatim>\<open>blockmodel\<close>\<close>

lemma cls_add_node: "cls (add_node G n a) = cls G"
  by (simp add: add_node_def)

lemma cls_add_nodes_from: "cls (add_nodes_from G ns) = cls G"
  unfolding add_nodes_from_def
  by (induction ns arbitrary: G) (auto simp: cls_add_node)

lemma cls_add_edge: "cls (add_edge G u v a) = cls G"
  by (simp add: add_edge_def Let_def cls_add_node)

lemma cls_add_edges_from: "cls (add_edges_from G es) = cls G"
  unfolding add_edges_from_def
  by (induction es arbitrary: G) (auto simp: cls_add_edge)

lemma cls_relabel_nodes: "cls (relabel_nodes G f) = cls G"
  by (simp add: relabel_nodes_def)

lemma cls_quotient_nodes: "cls (quotient_nodes G P nd cu) = (case cu of Some c \<Rightarrow> c | None \<Rightarrow> cls G)"
  by (simp add: quotient_nodes_def cls_add_nodes_from empty_graph_def split: option.splits)

lemma cls_quotient_graph:
  "quotient_graph G (Blocks P) er nd ed rl cu = Inr H \<Longrightarrow> cls H = (case cu of Some c \<Rightarrow> c | None \<Rightarrow> cls G)"
  by (auto simp: quotient_graph_Blocks cls_relabel_nodes cls_add_edges_from cls_quotient_nodes
      split: if_splits sum.splits)

text \<open>
  C7 fails on the code for a directed graph with the multigraph flag set. The graph has
  the single arc from node 1 to node 0 and the blocks are \<open>{0}\<close> and \<open>{1}\<close>:
  \<^verbatim>\<open>blockmodel\<close> passes the undirected \<^verbatim>\<open>MultiGraph\<close>, so the only block pair
  is \<open>({0}, {1})\<close>, the default edge relation looks for an arc from \<open>{0}\<close> to \<open>{1}\<close>,
  and the result is an undirected multigraph without any edge. The quotient with the
  directed multigraph template, which the specification describes, has the edge from
  block 1 to block 0, and so has \<^verbatim>\<open>blockmodel\<close> itself without the multigraph flag.
\<close>

theorem blockmodel_directed_multigraph:
  "edgelist example_arc = [(1, 0, 0, [])] \<and> is_directed example_arc
   \<and> blockmodel example_arc [[0], [1]] True
       = Inr \<lparr>cls = MultiGraph,
              node = [(Label 0, default_node_data example_arc {0}), (Label 1, default_node_data example_arc {1})],
              edgelist = []\<rparr>
   \<and> blockModel_spec example_arc [[0], [1]] True
       = Inr \<lparr>cls = MultiDiGraph,
              node = [(Label 0, default_node_data example_arc {0}), (Label 1, default_node_data example_arc {1})],
              edgelist = [(Label 1, Label 0, 0, [])]\<rparr>
   \<and> blockmodel example_arc [[0], [1]] False
       = Inr \<lparr>cls = DiGraph,
              node = [(Label 0, default_node_data example_arc {0}), (Label 1, default_node_data example_arc {1})],
              edgelist = [(Label 1, Label 0, 0, [(StrV ''weight'', IntV 1)])]\<rparr>
   \<and> blockmodel example_arc [[0], [1]] True \<noteq> blockModel_spec example_arc [[0], [1]] True"
proof -
  have a: "blockmodel example_arc [[0], [1]] True =
    Inr \<lparr>cls = MultiGraph,
         node = [(Label 0, default_node_data example_arc {0}), (Label 1, default_node_data example_arc {1})],
         edgelist = []\<rparr>"
    by code_simp
  have b: "blockModel_spec example_arc [[0], [1]] True =
    Inr \<lparr>cls = MultiDiGraph,
         node = [(Label 0, default_node_data example_arc {0}), (Label 1, default_node_data example_arc {1})],
         edgelist = [(Label 1, Label 0, 0, [])]\<rparr>"
    by code_simp
  have c: "blockmodel example_arc [[0], [1]] False =
    Inr \<lparr>cls = DiGraph,
         node = [(Label 0, default_node_data example_arc {0}), (Label 1, default_node_data example_arc {1})],
         edgelist = [(Label 1, Label 0, 0, [(StrV ''weight'', IntV 1)])]\<rparr>"
    by code_simp
  have d: "edgelist example_arc = [(1, 0, 0, [])]" "is_directed example_arc"
    by (simp_all add: example_arc_def is_directed_def)
  have e: "blockmodel example_arc [[0], [1]] True \<noteq> blockModel_spec example_arc [[0], [1]] True"
    unfolding a b by simp
  from a b c d e show ?thesis by (intro conjI)
qed

text \<open>
  What \<^verbatim>\<open>blockmodel\<close> forwards to: \<^verbatim>\<open>quotient_graph(G, P, relabel=True)\<close> with the
  undirected \<^verbatim>\<open>MultiGraph\<close> as \<^verbatim>\<open>create_using\<close> when the flag is set and with no
  \<^verbatim>\<open>create_using\<close> otherwise, so that the class of the result is \<^verbatim>\<open>MultiGraph\<close> or
  the class of \<open>G\<close>.
\<close>

theorem blockmodel_quotient_graph:
  "blockmodel G P m = quotient_graph G (Blocks P) None None None True (if m then Some MultiGraph else None)
   \<and> (\<forall>H. blockmodel G P m = Inr H \<longrightarrow>
         cls H = (if m then MultiGraph else cls G)
         \<and> (is_directed H \<longleftrightarrow> \<not> m \<and> is_directed G)
         \<and> (is_multigraph H \<longleftrightarrow> m \<or> is_multigraph G))"
proof -
  have e: "blockmodel G P m = quotient_graph G (Blocks P) None None None True (if m then Some MultiGraph else None)"
    by (simp add: blockmodel_def)
  have "\<forall>H. blockmodel G P m = Inr H \<longrightarrow> cls H = (if m then MultiGraph else cls G)"
    unfolding e using cls_quotient_graph by fastforce
  then show ?thesis using e by (auto simp: is_directed_def is_multigraph_def)
qed

theorem blockmodel_quotient_graph_witness:
  "blockmodel example_path [[0, 1], [2]] False
     = Inr \<lparr>cls = Graph,
            node = [(Label 0, default_node_data example_path {0, 1}), (Label 1, default_node_data example_path {2})],
            edgelist = [(Label 0, Label 1, 0, [(StrV ''weight'', IntV 1)])]\<rparr>
   \<and> blockmodel example_path [[0, 1], [2]] False
     = quotient_graph example_path (Blocks [[0, 1], [2]]) None None None True None"
proof -
  have a: "blockmodel example_path [[0, 1], [2]] False
     = Inr \<lparr>cls = Graph,
            node = [(Label 0, default_node_data example_path {0, 1}), (Label 1, default_node_data example_path {2})],
            edgelist = [(Label 0, Label 1, 0, [(StrV ''weight'', IntV 1)])]\<rparr>"
    by code_simp
  from blockmodel_quotient_graph[of example_path "[[0, 1], [2]]" False]
  have "blockmodel example_path [[0, 1], [2]] False
     = quotient_graph example_path (Blocks [[0, 1], [2]]) None None None True None"
    by simp
  with a show ?thesis by (intro conjI)
qed

subsection \<open>\<^verbatim>\<open>contracted_edge\<close> and \<^verbatim>\<open>contracted_nodes\<close>\<close>

lemma contracted_nodes_not_ValueError: "contracted_nodes G u v sl \<noteq> Inl ValueError"
  by (auto simp: contracted_nodes_def remove_node_def Let_def split: option.splits sum.splits pyval.splits if_splits)

text \<open>
  C5: \<^verbatim>\<open>contracted_edge\<close> raises its \<^verbatim>\<open>ValueError\<close> exactly when \<open>(u, v)\<close> is not an
  edge of \<open>G\<close>, and for an edge it is \<^verbatim>\<open>contracted_nodes(G, u, v, self_loops)\<close>. The
  pair is an edge when \<open>u\<close> is a node and a stored edge leads from \<open>u\<close> to \<open>v\<close>, or,
  in an undirected graph, from \<open>v\<close> to \<open>u\<close>.
\<close>

theorem contracted_edge_spec:
  "(contracted_edge G (u, v) self_loops = Inl ValueError \<longleftrightarrow> \<not> has_edge G u v)
   \<and> (has_edge G u v \<longrightarrow> contracted_edge G (u, v) self_loops = contracted_nodes G u v self_loops)
   \<and> (has_edge G u v \<longleftrightarrow>
        has_node G u \<and> (\<exists>(a, b, k, d)\<in>set (edgelist G). (a = u \<and> b = v) \<or> (\<not> is_directed G \<and> a = v \<and> b = u)))"
  using contracted_nodes_not_ValueError[of G u v self_loops]
  by (auto simp: contracted_edge_def has_edge_def adjacent_def joins_def)

theorem contracted_edge_spec_witness:
  "has_edge example_path 0 1
   \<and> contracted_edge example_path (0, 1) False = contracted_nodes example_path 0 1 False
   \<and> contracted_edge example_path (0, 1) False
       = Inr \<lparr>cls = Graph,
              node = [(0, [(StrV ''contraction'', DictV [(NodeV 1, DictV [])])]), (2, [])],
              edgelist = [(0, 2, 0, [])]\<rparr>
   \<and> contracted_edge example_path (0, 2) False = Inl ValueError"
proof -
  have a: "has_edge example_path 0 1" by code_simp
  have b: "\<not> has_edge example_path 0 2" by code_simp
  have c: "contracted_nodes example_path 0 1 False
       = Inr \<lparr>cls = Graph,
              node = [(0, [(StrV ''contraction'', DictV [(NodeV 1, DictV [])])]), (2, [])],
              edgelist = [(0, 2, 0, [])]\<rparr>"
    by code_simp
  from contracted_edge_spec[of example_path 0 1 False] a
  have d: "contracted_edge example_path (0, 1) False = contracted_nodes example_path 0 1 False"
    by blast
  from contracted_edge_spec[of example_path 0 2 False] b
  have e: "contracted_edge example_path (0, 2) False = Inl ValueError"
    by blast
  from a d c e show ?thesis by simp
qed

text \<open>
  C4 fails on the code when \<open>v\<close> has a self-loop: contracting the nodes 0 and 1 of the
  graph with the edge between 0 and 1 and a self-loop on 1 reads the self-loop as a new
  edge from 0 to 1, and adding that edge puts node 1 back. The result still contains
  node 1 and has as many nodes as \<open>G\<close>, for either value of \<^verbatim>\<open>self_loops\<close>.
\<close>

theorem contracted_nodes_self_loop:
  "contracted_nodes example_loop 0 1 True
     = Inr \<lparr>cls = Graph, node = [(0, [(StrV ''contraction'', DictV [(NodeV 1, DictV [])])]), (1, [])],
            edgelist = [(0, 0, 0, []), (0, 1, 0, [])]\<rparr>
   \<and> contracted_nodes example_loop 0 1 False
     = Inr \<lparr>cls = Graph, node = [(0, [(StrV ''contraction'', DictV [(NodeV 1, DictV [])])]), (1, [])],
            edgelist = [(0, 1, 0, [])]\<rparr>
   \<and> has_node example_loop 0 \<and> has_node example_loop 1
   \<and> (\<exists>H. contracted_nodes example_loop 0 1 True = Inr H \<and> has_node H 1
          \<and> number_of_nodes H = number_of_nodes example_loop)
   \<and> (\<exists>H. contracted_nodes example_loop 0 1 False = Inr H \<and> has_node H 1
          \<and> number_of_nodes H = number_of_nodes example_loop)"
proof -
  have a: "contracted_nodes example_loop 0 1 True
     = Inr \<lparr>cls = Graph, node = [(0, [(StrV ''contraction'', DictV [(NodeV 1, DictV [])])]), (1, [])],
            edgelist = [(0, 0, 0, []), (0, 1, 0, [])]\<rparr>"
    by code_simp
  have b: "contracted_nodes example_loop 0 1 False
     = Inr \<lparr>cls = Graph, node = [(0, [(StrV ''contraction'', DictV [(NodeV 1, DictV [])])]), (1, [])],
            edgelist = [(0, 1, 0, [])]\<rparr>"
    by code_simp
  show ?thesis unfolding a b
    by (simp add: has_node_def nodes_list_def number_of_nodes_def example_loop_def)
qed

theorem quotient_graph_partition_invalid_witness:
  "quotient_graph example_path (Blocks [[0, 1]]) None None None False None = Inl NetworkXException
   \<and> quotient_graph example_path (Blocks [[0, 1], [1, 2]]) None None None False None = Inl NetworkXException
   \<and> quotient_graph example_path (Blocks [[0, 1], [2]]) None None None False None
       = Inr \<lparr>cls = Graph,
              node = [(Block {0, 1}, default_node_data example_path {0, 1}),
                      (Block {2}, default_node_data example_path {2})],
              edgelist = [(Block {0, 1}, Block {2}, 0, [(StrV ''weight'', IntV 1)])]\<rparr>
   \<and> length (filter (\<lambda>b. 2 \<in> set b) [[0, 1], [2 :: nat]]) = 1"
proof -
  have a: "\<exists>v\<in>set (nodes_list example_path).
      length (filter (\<lambda>b. v \<in> set b) [[0, 1]]) = 0 \<or> length (filter (\<lambda>b. v \<in> set b) [[0, 1]]) > 1"
    by code_simp
  have b: "\<exists>v\<in>set (nodes_list example_path).
      length (filter (\<lambda>b. v \<in> set b) [[0, 1], [1, 2]]) = 0 \<or> length (filter (\<lambda>b. v \<in> set b) [[0, 1], [1, 2]]) > 1"
    by code_simp
  have c: "quotient_graph example_path (Blocks [[0, 1], [2]]) None None None False None
       = Inr \<lparr>cls = Graph,
              node = [(Block {0, 1}, default_node_data example_path {0, 1}),
                      (Block {2}, default_node_data example_path {2})],
              edgelist = [(Block {0, 1}, Block {2}, 0, [(StrV ''weight'', IntV 1)])]\<rparr>"
    by code_simp
  have n: "2 \<in> set (nodes_list example_path)" by code_simp
  from quotient_graph_partition_invalid[of example_path "[[0, 1]]" None None None False None] a
  have a': "quotient_graph example_path (Blocks [[0, 1]]) None None None False None = Inl NetworkXException"
    by blast
  from quotient_graph_partition_invalid[of example_path "[[0, 1], [1, 2]]" None None None False None] b
  have b': "quotient_graph example_path (Blocks [[0, 1], [1, 2]]) None None None False None = Inl NetworkXException"
    by blast
  from quotient_graph_partition_invalid[of example_path "[[0, 1], [2]]" None None None False None] c n
  have d: "length (filter (\<lambda>b. 2 \<in> set b) [[0, 1], [2 :: nat]]) = 1"
    by blast
  from a' b' c d show ?thesis by (intro conjI)
qed

subsection \<open>The nodes of the quotient graph\<close>

lemma nodes_list_add_node: "nodes_list (add_node G n a) = append_new (nodes_list G) n"
  by (auto simp: add_node_def has_node_def nodes_list_def append_new_def o_def split_def)

lemma nodes_list_add_nodes_from:
  "nodes_list (add_nodes_from G ns) = fold (\<lambda>n xs. append_new xs n) (map fst ns) (nodes_list G)"
  unfolding add_nodes_from_def
  by (induction ns arbitrary: G) (auto simp: nodes_list_add_node)

lemma fold_append_new_distinct:
  "distinct ys \<Longrightarrow> set ys \<inter> set xs = {} \<Longrightarrow> fold (\<lambda>n xs. append_new xs n) ys xs = xs @ ys"
  by (induction ys arbitrary: xs) (auto simp: append_new_def)

lemma set_fold_append_new: "set (fold (\<lambda>n xs. append_new xs n) ys xs) = set xs \<union> set ys"
  by (induction ys arbitrary: xs) (auto simp: append_new_def)

lemma distinct_fold_append_new: "distinct xs \<Longrightarrow> distinct (fold (\<lambda>n xs. append_new xs n) ys xs)"
  by (induction ys arbitrary: xs) (auto simp: append_new_def)

lemma nodes_list_empty_graph: "nodes_list (empty_graph c) = []"
  by (simp add: nodes_list_def empty_graph_def)

lemma nodes_list_quotient_nodes:
  "nodes_list (quotient_nodes G P nd cu) = fold (\<lambda>n xs. append_new xs n) (map set P) []"
  by (simp add: quotient_nodes_def nodes_list_add_nodes_from nodes_list_empty_graph o_def split: option.splits)

lemma nodes_list_edgelist_update: "nodes_list (G\<lparr>edgelist := es\<rparr>) = nodes_list G"
  by (simp add: nodes_list_def)

lemma nodes_list_add_edge:
  "u \<in> set (nodes_list G) \<Longrightarrow> v \<in> set (nodes_list G) \<Longrightarrow> nodes_list (add_edge G u v a) = nodes_list G"
  by (simp add: add_edge_def Let_def nodes_list_edgelist_update nodes_list_add_node append_new_def)

lemma nodes_list_add_edges_from:
  "\<forall>(u, v, a)\<in>set es. u \<in> set (nodes_list G) \<and> v \<in> set (nodes_list G) \<Longrightarrow>
   nodes_list (add_edges_from G es) = nodes_list G"
  unfolding add_edges_from_def
  by (induction es arbitrary: G) (auto simp: nodes_list_add_edge)

lemma nodes_list_relabel_nodes: "nodes_list (relabel_nodes G f) = map f (nodes_list G)"
  by (simp add: relabel_nodes_def nodes_list_def o_def split_def)

lemma set_combinations2: "set (combinations2 xs) \<subseteq> set xs \<times> set xs"
  by (induction xs) auto

lemma set_permutations2_from: "set (permutations2_from pre xs) \<subseteq> set (pre @ xs) \<times> set (pre @ xs)"
  by (induction pre xs rule: permutations2_from.induct) auto

lemma set_block_pairs_of: "set (block_pairs_of H) \<subseteq> set (nodes_list H) \<times> set (nodes_list H)"
  using set_combinations2[of "nodes_list H"] set_permutations2_from[of "[]" "nodes_list H"]
  by (auto simp: block_pairs_of_def permutations2_def)

lemma collect_Inr_set:
  "collect f xs = Inr ys \<Longrightarrow> y \<in> set ys \<Longrightarrow> \<exists>x\<in>set xs. \<exists>zs. f x = Inr zs \<and> y \<in> set zs"
  by (induction xs arbitrary: ys) (auto split: sum.splits)

lemma crossing_edges_ends:
  "crossing_edges G b c = Inr zs \<Longrightarrow> z \<in> set zs \<Longrightarrow> fst z = b \<and> fst (snd z) = c"
  unfolding crossing_edges_def
  by (auto dest!: collect_Inr_set split: sum.splits if_splits)

lemma multigraph_edges_ends:
  "multigraph_edges G er ps = Inr es \<Longrightarrow> z \<in> set es \<Longrightarrow> (fst z, fst (snd z)) \<in> set ps"
  unfolding multigraph_edges_def
  by (auto dest!: collect_Inr_set split: sum.splits if_splits dest: crossing_edges_ends)

lemma simple_edges_ends:
  "simple_edges er ed ps = Inr es \<Longrightarrow> z \<in> set es \<Longrightarrow> (fst z, fst (snd z)) \<in> set ps"
  unfolding simple_edges_def
  by (auto dest!: collect_Inr_set split: sum.splits if_splits)

lemma quotient_edges_ends:
  "quotient_edges G H er ed = Inr es \<Longrightarrow> z \<in> set es \<Longrightarrow> (fst z, fst (snd z)) \<in> set (block_pairs_of H)"
  by (auto simp: quotient_edges_def split: if_splits dest: multigraph_edges_ends simple_edges_ends)

lemma nodes_list_quotient_graph:
  assumes "quotient_graph G (Blocks P) er nd ed rl cu = Inr H"
  shows "nodes_list H = map (relabelling rl P) (fold (\<lambda>n xs. append_new xs n) (map set P) [])"
proof -
  from assms obtain es where es: "quotient_edges G (quotient_nodes G P nd cu) er ed = Inr es"
    and H: "H = relabel_nodes (add_edges_from (quotient_nodes G P nd cu) es) (relabelling rl P)"
    by (auto simp: quotient_graph_Blocks split: if_splits sum.splits)
  have "\<forall>(u, v, a)\<in>set es. u \<in> set (nodes_list (quotient_nodes G P nd cu)) \<and> v \<in> set (nodes_list (quotient_nodes G P nd cu))"
    using quotient_edges_ends[OF es] set_block_pairs_of[of "quotient_nodes G P nd cu"] by fastforce
  then have "nodes_list (add_edges_from (quotient_nodes G P nd cu) es) = nodes_list (quotient_nodes G P nd cu)"
    by (rule nodes_list_add_edges_from)
  then show ?thesis by (simp add: H nodes_list_relabel_nodes nodes_list_quotient_nodes)
qed

lemma distinct_blocks_aux:
  "\<forall>b\<in>set P. b \<noteq> [] \<and> (\<forall>v\<in>set b. length (filter (\<lambda>b. v \<in> set b) P) \<le> 1) \<Longrightarrow> distinct (map set P)"
proof (induction P)
  case Nil
  then show ?case by simp
next
  case (Cons a P)
  have "\<forall>b\<in>set P. b \<noteq> [] \<and> (\<forall>v\<in>set b. length (filter (\<lambda>b. v \<in> set b) P) \<le> 1)"
  proof
    fix b assume b: "b \<in> set P"
    then have "b \<noteq> []" using Cons.prems by simp
    moreover have "\<forall>v\<in>set b. length (filter (\<lambda>b. v \<in> set b) P) \<le> 1"
    proof
      fix v assume "v \<in> set b"
      then have "length (filter (\<lambda>b. v \<in> set b) (a # P)) \<le> 1" using Cons.prems b by simp
      then show "length (filter (\<lambda>b. v \<in> set b) P) \<le> 1" by (simp split: if_splits)
    qed
    ultimately show "b \<noteq> [] \<and> (\<forall>v\<in>set b. length (filter (\<lambda>b. v \<in> set b) P) \<le> 1)" by simp
  qed
  then have d: "distinct (map set P)" by (rule Cons.IH)
  have "set a \<notin> set ` set P"
  proof
    assume "set a \<in> set ` set P"
    then obtain b where b: "b \<in> set P" "set b = set a" by auto
    from Cons.prems have "a \<noteq> []" by simp
    then obtain v where v: "v \<in> set a" by (cases a) auto
    then have "length (filter (\<lambda>b. v \<in> set b) (a # P)) \<le> 1" using Cons.prems by simp
    then have "filter (\<lambda>b. v \<in> set b) P = []" using v by simp
    then have "v \<notin> set b" using b(1) by (simp add: filter_empty_conv)
    with b(2) v show False by simp
  qed
  with d show ?case by simp
qed

lemma valid_partition_distinct: "valid_partition G P \<Longrightarrow> distinct (map set P)"
  by (rule distinct_blocks_aux) (auto simp: valid_partition_def subset_iff)

lemma fold_update_miss:
  "b \<notin> set bs \<Longrightarrow> map_of (fold (\<lambda>(i, b). AList.update b i) (enumerate n bs) d) b = map_of d b"
  by (induction bs arbitrary: n d) (auto simp: update_conv')

lemma fold_update_hit:
  "distinct bs \<Longrightarrow> i < length bs \<Longrightarrow>
   map_of (fold (\<lambda>(i, b). AList.update b i) (enumerate n bs) d) (bs ! i) = Some (n + i)"
proof (induction bs arbitrary: n d i)
  case Nil
  then show ?case by simp
next
  case (Cons a bs)
  show ?case
  proof (cases i)
    case 0
    then show ?thesis using Cons.prems by (simp add: fold_update_miss update_conv')
  next
    case (Suc j)
    then show ?thesis using Cons.prems Cons.IH[of j "Suc n"] by simp
  qed
qed

lemma block_labels_nth: "distinct bs \<Longrightarrow> i < length bs \<Longrightarrow> map_of (block_labels bs) (bs ! i) = Some i"
  using fold_update_hit[of bs i 0 "[]"] by (simp add: block_labels_def)

lemma map_relabelling:
  assumes "distinct (map set P)"
  shows "map (relabelling rl P) (map set P) = (if rl then map Label [0..<length P] else map (\<lambda>b. Block (set b)) P)"
proof (cases rl)
  case False
  then show ?thesis by (simp add: relabelling_def)
next
  case True
  have "map (relabelling True P) (map set P) = map Label [0..<length P]"
  proof (rule nth_equalityI)
    show "length (map (relabelling True P) (map set P)) = length (map Label [0..<length P])" by simp
  next
    fix i assume "i < length (map (relabelling True P) (map set P))"
    then have i: "i < length (map set P)" by simp
    from block_labels_nth[OF assms i] i
    show "map (relabelling True P) (map set P) ! i = map Label [0..<length P] ! i"
      by (simp add: relabelling_def)
  qed
  with True show ?thesis by simp
qed

subsection \<open>The default edge relation and edge data\<close>

lemma set_product: "finite b \<Longrightarrow> finite c \<Longrightarrow> set (product b c) = b \<times> c"
  by (simp add: product_def)

lemma neighbor_test_node: "u \<in> set (nodes_list G) \<Longrightarrow> neighbor_test G u v = Inr (adjacent G u v)"
  by (simp add: neighbor_test_def has_node_def)

lemma any_neighbor_nodes:
  "\<forall>(u, v)\<in>set ps. u \<in> set (nodes_list G) \<Longrightarrow> any_neighbor G ps = Inr (\<exists>(u, v)\<in>set ps. adjacent G u v)"
  by (induction ps) (auto simp: neighbor_test_node)

lemma edge_relation_of_nodes:
  assumes "finite b" "finite c" "b \<subseteq> set (nodes_list G)"
  shows "edge_relation_of G er b c = Inr (blocks_related G er b c)"
proof (cases er)
  case None
  have "\<forall>(u, v)\<in>set (product b c). u \<in> set (nodes_list G)"
    using assms by (auto simp: set_product)
  from any_neighbor_nodes[OF this] show ?thesis
    using None assms by (auto simp: edge_relation_of_def default_edge_relation_def blocks_related_def set_product)
next
  case (Some f)
  then show ?thesis by (simp add: edge_relation_of_def blocks_related_def)
qed

lemma collect_map: "\<forall>x\<in>set xs. f x = Inr (g x) \<Longrightarrow> collect f xs = Inr (concat (map g xs))"
  by (induction xs) auto

lemma crossing_edges_nodes:
  assumes "finite b" "finite c" "b \<subseteq> set (nodes_list G)"
  shows "crossing_edges G b c =
     Inr (map (\<lambda>(u, v). (b, c, get_edge_data G u v)) (filter (\<lambda>(u, v). adjacent G u v) (product b c)))"
proof -
  have "\<forall>x\<in>set (product b c).
      (\<lambda>(u, v). case neighbor_test G u v of Inl e \<Rightarrow> Inl e
                 | Inr found \<Rightarrow> Inr (if found then [(b, c, get_edge_data G u v)] else [])) x
      = Inr ((\<lambda>(u, v). if adjacent G u v then [(b, c, get_edge_data G u v)] else []) x)"
    using assms by (auto simp: set_product neighbor_test_node)
  from collect_map[OF this] have "crossing_edges G b c =
     Inr (concat (map (\<lambda>(u, v). if adjacent G u v then [(b, c, get_edge_data G u v)] else []) (product b c)))"
    by (simp add: crossing_edges_def)
  moreover have "concat (map (\<lambda>(u, v). if adjacent G u v then [(b, c, get_edge_data G u v)] else []) ps)
      = map (\<lambda>(u, v). (b, c, get_edge_data G u v)) (filter (\<lambda>(u, v). adjacent G u v) ps)" for ps
    by (induction ps) auto
  ultimately show ?thesis by simp
qed

lemma weight_or_1_int: "weight_or_1 d = IntV i \<Longrightarrow> weight_int d = i"
  by (auto simp: weight_or_1_def weight_int_def split: option.splits)

lemma py_sum_weights:
  "\<forall>d\<in>set ds. \<exists>i. weight_or_1 d = IntV i \<Longrightarrow>
   py_sum (map weight_or_1 ds) a = Inr (a + sum_list (map weight_int ds))"
proof (induction ds arbitrary: a)
  case Nil
  then show ?case by simp
next
  case (Cons d ds)
  then obtain i where i: "weight_or_1 d = IntV i" by auto
  then show ?case using Cons by (simp add: weight_or_1_int)
qed

lemma edges_crossing:
  "map (\<lambda>(u, v, d). d) (filter (\<lambda>(u, v, d). crosses b c u v) (edges G (b \<union> c)))
   = map (\<lambda>(u, v, k, d). d) (filter (\<lambda>(u, v, k, d). crosses b c u v) (edgelist G))"
proof -
  have "map (\<lambda>(u, v, d). d) (filter (\<lambda>(u, v, d). crosses b c u v)
          (List.map_filter (\<lambda>(a, b', k, d). if a \<in> b \<union> c then Some (a, b', d)
               else if \<not> dir \<and> b' \<in> b \<union> c then Some (b', a, d) else None) es))
      = map (\<lambda>(u, v, k, d). d) (filter (\<lambda>(u, v, k, d). crosses b c u v) es)" for dir es
  proof (induction es)
    case Nil
    then show ?case by (simp add: map_filter_simps)
  next
    case (Cons e es)
    obtain a b' k d where e: "e = (a, b', k, d)" by (cases e) auto
    show ?case
    proof (cases "a \<in> b \<union> c")
      case True
      then show ?thesis using Cons.IH by (simp add: e map_filter_simps)
    next
      case False
      then have n: "\<not> crosses b c a b'" "\<not> crosses b c b' a" by (auto simp: crosses_def)
      show ?thesis using Cons.IH False n by (simp add: e map_filter_simps)
    qed
  qed
  then show ?thesis by (simp add: edges_def)
qed

lemma default_edge_data_weight:
  assumes "int_weights G"
  shows "default_edge_data G b c = Inr [(StrV ''weight'', IntV (crossing_weight G b c))]"
proof -
  let ?ds = "map (\<lambda>(u, v, k, d). d) (filter (\<lambda>(u, v, k, d). crosses b c u v) (edgelist G))"
  have ints: "\<forall>d\<in>set ?ds. \<exists>i. weight_or_1 d = IntV i"
    using assms by (fastforce simp: int_weights_def)
  have "py_sum (map weight_or_1 ?ds) 0 = Inr (sum_list (map weight_int ?ds))"
    using py_sum_weights[OF ints, of 0] by simp
  moreover have "sum_list (map weight_int ?ds) = crossing_weight G b c"
    by (simp add: crossing_weight_def o_def split_def)
  moreover have "default_edge_data G b c =
      (case py_sum (map weight_or_1 ?ds) 0 of Inl e \<Rightarrow> Inl e | Inr w \<Rightarrow> Inr [(StrV ''weight'', IntV w)])"
    using edges_crossing[of b c G] by (simp add: default_edge_data_def crosses_def Let_def)
  ultimately show ?thesis by simp
qed

subsection \<open>The edges of a quotient multigraph\<close>

text \<open>
  C1 fails on the code when \<open>G\<close> is a multigraph: for the graph with two parallel edges
  between 0 and 1 and the blocks \<open>{0}\<close> and \<open>{1}\<close> the quotient multigraph has one edge
  between the two blocks, not two, and its data is not the data of an edge of \<open>G\<close> but
  the dictionary from the two edge keys to the two attribute dictionaries.
\<close>

theorem quotient_graph_parallel_edges:
  "quotient_graph example_parallel (Blocks [[0], [1]]) None None None False None
     = Inr \<lparr>cls = MultiGraph,
            node = [(Block {0}, default_node_data example_parallel {0}),
                    (Block {1}, default_node_data example_parallel {1})],
            edgelist = [(Block {0}, Block {1}, 0,
                         [(IntV 0, DictV [(StrV ''weight'', IntV 1)]),
                          (IntV 1, DictV [(StrV ''weight'', IntV 2)])])]\<rparr>
   \<and> number_of_edges example_parallel = 2
   \<and> (\<exists>H. quotient_graph example_parallel (Blocks [[0], [1]]) None None None False None = Inr H
          \<and> is_multigraph H \<and> number_of_edges H = 1)"
proof -
  have a: "quotient_graph example_parallel (Blocks [[0], [1]]) None None None False None
     = Inr \<lparr>cls = MultiGraph,
            node = [(Block {0}, default_node_data example_parallel {0}),
                    (Block {1}, default_node_data example_parallel {1})],
            edgelist = [(Block {0}, Block {1}, 0,
                         [(IntV 0, DictV [(StrV ''weight'', IntV 1)]),
                          (IntV 1, DictV [(StrV ''weight'', IntV 2)])])]\<rparr>"
    by code_simp
  show ?thesis unfolding a
    by (simp add: number_of_edges_def example_parallel_def is_multigraph_def)
qed

subsection \<open>The number of nodes of the quotient graph\<close>

lemma set_nodes_quotient_nodes: "set (nodes_list (quotient_nodes G P nd cu)) = set ` set P"
  by (simp add: nodes_list_quotient_nodes set_fold_append_new)

lemma block_pairs_blocks:
  assumes "(b, c) \<in> set (block_pairs_of (quotient_nodes G P nd cu))"
  shows "b \<in> set ` set P \<and> c \<in> set ` set P"
  using assms set_block_pairs_of[of "quotient_nodes G P nd cu"] set_nodes_quotient_nodes[of G P nd cu]
  by auto

lemma quotient_edges_succeeds:
  assumes nodes: "\<forall>b\<in>set P. set b \<subseteq> set (nodes_list G)" and w: "int_weights G"
  shows "\<exists>es. quotient_edges G (quotient_nodes G P nd cu) er ed = Inr es"
proof -
  let ?H = "quotient_nodes G P nd cu"
  have rel: "edge_relation_of G er b c = Inr (blocks_related G er b c)"
    if "(b, c) \<in> set (block_pairs_of ?H)" for b c
  proof -
    from block_pairs_blocks[OF that] obtain b' c' where "b' \<in> set P" "b = set b'" "c' \<in> set P" "c = set c'"
      by auto
    then show ?thesis using nodes by (intro edge_relation_of_nodes) auto
  qed
  have cross: "\<exists>ys. crossing_edges G b c = Inr ys"
    if "(b, c) \<in> set (block_pairs_of ?H)" for b c
  proof -
    from block_pairs_blocks[OF that] obtain b' c' where "b' \<in> set P" "b = set b'" "c' \<in> set P" "c = set c'"
      by auto
    then have "finite b" "finite c" "b \<subseteq> set (nodes_list G)" using nodes by auto
    from crossing_edges_nodes[OF this] show ?thesis by blast
  qed
  have dat: "\<exists>d. edge_data_of G ed b c = Inr d" for b c
    using default_edge_data_weight[OF w] by (cases ed) (auto simp: edge_data_of_def)
  show ?thesis
  proof (cases "is_multigraph ?H")
    case True
    have "\<forall>x\<in>set (block_pairs_of ?H). \<exists>ys.
        (\<lambda>(b, c). case edge_relation_of G er b c of Inl e \<Rightarrow> Inl e
                   | Inr t \<Rightarrow> if t then crossing_edges G b c else Inr []) x = Inr ys"
      using rel cross by auto
    then have "\<exists>ys. multigraph_edges G (edge_relation_of G er) (block_pairs_of ?H) = Inr ys"
      unfolding multigraph_edges_def by (simp only: collect_Inr_iff)
    with True show ?thesis by (simp add: quotient_edges_def)
  next
    case False
    have "\<forall>x\<in>set (block_pairs_of ?H). \<exists>ys.
        (\<lambda>(b, c). case edge_relation_of G er b c of Inl e \<Rightarrow> Inl e
                   | Inr t \<Rightarrow>
                       if t
                       then (case edge_data_of G ed b c of Inl e \<Rightarrow> Inl e | Inr d \<Rightarrow> Inr [(b, c, d)])
                       else Inr []) x = Inr ys"
    proof
      fix x assume x: "x \<in> set (block_pairs_of ?H)"
      obtain b c where bc: "x = (b, c)" by (cases x)
      obtain d where "edge_data_of G ed b c = Inr d" using dat by blast
      then show "\<exists>ys.
        (\<lambda>(b, c). case edge_relation_of G er b c of Inl e \<Rightarrow> Inl e
                   | Inr t \<Rightarrow>
                       if t
                       then (case edge_data_of G ed b c of Inl e \<Rightarrow> Inl e | Inr d \<Rightarrow> Inr [(b, c, d)])
                       else Inr []) x = Inr ys"
        using rel[of b c] x bc by simp
    qed
    then have "\<exists>ys. simple_edges (edge_relation_of G er) (edge_data_of G ed) (block_pairs_of ?H) = Inr ys"
      unfolding simple_edges_def by (simp only: collect_Inr_iff)
    with False show ?thesis by (simp add: quotient_edges_def)
  qed
qed

lemma quotient_graph_succeeds:
  assumes "block_check G P" "\<forall>b\<in>set P. set b \<subseteq> set (nodes_list G)" "int_weights G"
  shows "\<exists>H. quotient_graph G (Blocks P) er nd ed rl cu = Inr H"
proof -
  obtain es where "quotient_edges G (quotient_nodes G P nd cu) er ed = Inr es"
    using quotient_edges_succeeds[OF assms(2,3)] by blast
  then show ?thesis using assms(1) by (simp add: quotient_graph_Blocks)
qed

lemma valid_partition_check: "valid_partition G P \<Longrightarrow> block_check G P"
  by (simp add: valid_partition_def block_check_def)

text \<open>
  C9: for a graph \<open>G\<close> and a partition of its nodes (non-empty blocks of nodes of \<open>G\<close>,
  every node in exactly one block) \<^verbatim>\<open>quotient_graph\<close> does not raise its
  \<^verbatim>\<open>NetworkXException\<close>, and the graph it returns has exactly one node per block:
  as many nodes as the partition has blocks, namely the blocks themselves in the order
  of the partition, or with relabelling the integers from 0 in that order. When the
  weights of \<open>G\<close> are integers a graph is returned.
\<close>

theorem quotient_graph_node_count:
  assumes "valid_partition G P"
  shows "quotient_graph G (Blocks P) er nd ed rl cu \<noteq> Inl NetworkXException
    \<and> (\<forall>H. quotient_graph G (Blocks P) er nd ed rl cu = Inr H \<longrightarrow>
          number_of_nodes H = length P
          \<and> nodes_list H = (if rl then map Label [0..<length P] else map (\<lambda>b. Block (set b)) P))
    \<and> (int_weights G \<longrightarrow> (\<exists>H. quotient_graph G (Blocks P) er nd ed rl cu = Inr H))"
proof (intro conjI allI impI)
  show "quotient_graph G (Blocks P) er nd ed rl cu \<noteq> Inl NetworkXException"
    using valid_partition_check[OF assms]
    by (auto simp: quotient_graph_Blocks split: sum.splits dest: quotient_edges_error)
next
  fix H assume H: "quotient_graph G (Blocks P) er nd ed rl cu = Inr H"
  have d: "distinct (map set P)" using assms by (rule valid_partition_distinct)
  then have "fold (\<lambda>n xs. append_new xs n) (map set P) [] = map set P"
    using fold_append_new_distinct[of "map set P" "[]"] by simp
  then have "nodes_list H = map (relabelling rl P) (map set P)"
    using nodes_list_quotient_graph[OF H] by simp
  then show n: "nodes_list H = (if rl then map Label [0..<length P] else map (\<lambda>b. Block (set b)) P)"
    using map_relabelling[OF d, of rl] by simp
  have "number_of_nodes H = length (nodes_list H)"
    by (simp add: number_of_nodes_def nodes_list_def)
  then show "number_of_nodes H = length P" using n by simp
next
  assume "int_weights G"
  then show "\<exists>H. quotient_graph G (Blocks P) er nd ed rl cu = Inr H"
    using assms valid_partition_check[OF assms]
    by (intro quotient_graph_succeeds) (auto simp: valid_partition_def)
qed

theorem quotient_graph_node_count_witness:
  "valid_partition example_path [[0, 1], [2]] \<and> int_weights example_path
   \<and> (\<exists>H. quotient_graph example_path (Blocks [[0, 1], [2]]) None None None False None = Inr H
          \<and> number_of_nodes H = 2 \<and> nodes_list H = [Block {0, 1}, Block {2}])
   \<and> (\<exists>H. quotient_graph example_path (Blocks [[0, 1], [2]]) None None None True None = Inr H
          \<and> number_of_nodes H = 2 \<and> nodes_list H = [Label 0, Label 1])"
proof -
  have v: "valid_partition example_path [[0, 1], [2]]"
    unfolding valid_partition_def by code_simp
  have w: "int_weights example_path"
    by (simp add: int_weights_def example_path_def weight_or_1_def)
  from quotient_graph_node_count[OF v, of None None None False None] w
  have a: "\<exists>H. quotient_graph example_path (Blocks [[0, 1], [2]]) None None None False None = Inr H
          \<and> number_of_nodes H = 2 \<and> nodes_list H = [Block {0, 1}, Block {2}]"
    by (auto simp: insert_commute)
  from quotient_graph_node_count[OF v, of None None None True None] w
  have b: "\<exists>H. quotient_graph example_path (Blocks [[0, 1], [2]]) None None None True None = Inr H
          \<and> number_of_nodes H = 2 \<and> nodes_list H = [Label 0, Label 1]"
    by (auto simp: upt_rec)
  from v w a b show ?thesis by (intro conjI)
qed

subsection \<open>The edges of a quotient graph that is not a multigraph\<close>

lemma block_pairs_of_eq: "block_pairs_of H = block_pairs (is_directed H) (nodes_list H)"
  by (simp add: block_pairs_of_def block_pairs_def)

lemma same_ends_sym: "same_ends dir p q \<longleftrightarrow> same_ends dir q p"
  by (cases p; cases q) (auto simp: same_ends_def)

lemma same_ends_refl: "same_ends dir p p"
  by (simp add: same_ends_def)

lemma joins_same_ends: "joins dir u v (a, b, k, d) \<longleftrightarrow> same_ends dir (a, b) (u, v)"
  by (auto simp: joins_def same_ends_def)

lemma py_sum_Inr:
  "py_sum (map weight_or_1 ds) a = Inr r \<Longrightarrow> r = a + sum_list (map weight_int ds)"
proof (induction ds arbitrary: a)
  case Nil
  then show ?case by simp
next
  case (Cons d ds)
  show ?case
  proof (cases "weight_or_1 d")
    case (IntV i)
    with Cons.prems have "py_sum (map weight_or_1 ds) (a + i) = Inr r" by simp
    from Cons.IH[OF this] IntV show ?thesis by (simp add: weight_or_1_int)
  qed (use Cons.prems in simp_all)
qed

lemma default_edge_data_Inr:
  assumes "default_edge_data G b c = Inr d"
  shows "d = [(StrV ''weight'', IntV (crossing_weight G b c))]"
proof -
  let ?ds = "map (\<lambda>(u, v, k, d). d) (filter (\<lambda>(u, v, k, d). crosses b c u v) (edgelist G))"
  have e: "default_edge_data G b c =
      (case py_sum (map weight_or_1 ?ds) 0 of Inl e \<Rightarrow> Inl e | Inr w \<Rightarrow> Inr [(StrV ''weight'', IntV w)])"
    using edges_crossing[of b c G] by (simp add: default_edge_data_def crosses_def Let_def)
  with assms obtain w where w: "py_sum (map weight_or_1 ?ds) 0 = Inr w" "d = [(StrV ''weight'', IntV w)]"
    by (auto split: sum.splits)
  from py_sum_Inr[OF w(1)] have "w = crossing_weight G b c"
    by (simp add: crossing_weight_def o_def split_def)
  with w(2) show ?thesis by simp
qed

lemma edge_data_of_Inr: "edge_data_of G ed b c = Inr d \<Longrightarrow> d = edge_attrs G ed b c"
  by (cases ed) (auto simp: edge_data_of_def edge_attrs_def dest: default_edge_data_Inr)

lemma simple_edges_explicit:
  assumes "\<forall>(b, c)\<in>set ps. er b c = Inr (r b c)"
    and "\<forall>b c d. ed b c = Inr d \<longrightarrow> d = g b c"
    and "simple_edges er ed ps = Inr es"
  shows "es = map (\<lambda>(b, c). (b, c, g b c)) (filter (\<lambda>(b, c). r b c) ps)"
  using assms(1,3) unfolding simple_edges_def
proof (induction ps arbitrary: es)
  case Nil
  then show ?case by simp
next
  case (Cons p ps)
  obtain b c where p: "p = (b, c)" by (cases p)
  from Cons.prems(1) have er: "er b c = Inr (r b c)" and rest: "\<forall>(b, c)\<in>set ps. er b c = Inr (r b c)"
    by (auto simp: p)
  show ?case
  proof (cases "r b c")
    case True
    with Cons.prems(2) er obtain d zs where d: "ed b c = Inr d"
      and zs: "collect (\<lambda>(b, c). case er b c of Inl e \<Rightarrow> Inl e
                 | Inr t \<Rightarrow> if t then (case ed b c of Inl e \<Rightarrow> Inl e | Inr d \<Rightarrow> Inr [(b, c, d)]) else Inr []) ps = Inr zs"
      and es: "es = (b, c, d) # zs"
      by (auto simp: p split: sum.splits)
    from assms(2) d have "d = g b c" by blast
    with Cons.IH[OF rest zs] es True show ?thesis by (simp add: p)
  next
    case False
    with Cons.prems(2) er obtain zs where
      zs: "collect (\<lambda>(b, c). case er b c of Inl e \<Rightarrow> Inl e
                 | Inr t \<Rightarrow> if t then (case ed b c of Inl e \<Rightarrow> Inl e | Inr d \<Rightarrow> Inr [(b, c, d)]) else Inr []) ps = Inr zs"
      and es: "es = zs"
      by (auto simp: p split: sum.splits)
    with Cons.IH[OF rest zs] False show ?thesis by (simp add: p)
  qed
qed

lemma is_directed_cls: "cls G = cls H \<Longrightarrow> is_directed G = is_directed H"
  by (simp add: is_directed_def)

lemma is_multigraph_cls: "cls G = cls H \<Longrightarrow> is_multigraph G = is_multigraph H"
  by (simp add: is_multigraph_def)

lemma edgelist_add_edge_new:
  assumes "\<not> is_multigraph G" and "\<forall>e\<in>set (edgelist G). \<not> joins (is_directed G) u v e"
  shows "edgelist (add_edge G u v a) = edgelist G @ [(u, v, 0, a)]"
proof -
  have "filter (joins (is_directed G) u v) (edgelist G) = []"
    using assms(2) by (simp add: filter_empty_conv)
  then show ?thesis using assms(1) by (simp add: add_edge_def Let_def)
qed

lemma edgelist_add_edges_from_new:
  assumes "\<not> is_multigraph G"
    and "sorted_wrt (\<lambda>x y. \<not> same_ends (is_directed G) (fst x, fst (snd x)) (fst y, fst (snd y))) es"
    and "\<forall>x\<in>set es. \<forall>e\<in>set (edgelist G). \<not> joins (is_directed G) (fst x) (fst (snd x)) e"
  shows "edgelist (add_edges_from G es) = edgelist G @ map (\<lambda>(u, v, a). (u, v, 0, a)) es"
  using assms unfolding add_edges_from_def
proof (induction es arbitrary: G)
  case Nil
  then show ?case by simp
next
  case (Cons x es)
  obtain u v a where x: "x = (u, v, a)" by (cases x)
  let ?G = "add_edge G u v a"
  have c: "cls ?G = cls G" by (rule cls_add_edge)
  have d: "is_directed ?G = is_directed G" and m: "\<not> is_multigraph ?G"
    using is_directed_cls[OF c] is_multigraph_cls[OF c] Cons.prems(1) by simp_all
  have el: "edgelist ?G = edgelist G @ [(u, v, 0, a)]"
    using Cons.prems(1,3) by (intro edgelist_add_edge_new) (auto simp: x)
  have s: "sorted_wrt (\<lambda>x y. \<not> same_ends (is_directed ?G) (fst x, fst (snd x)) (fst y, fst (snd y))) es"
    using Cons.prems(2) by (simp add: d)
  have f: "\<forall>y\<in>set es. \<forall>e\<in>set (edgelist ?G). \<not> joins (is_directed ?G) (fst y) (fst (snd y)) e"
  proof (intro ballI)
    fix y e assume y: "y \<in> set es" and e: "e \<in> set (edgelist ?G)"
    from e el consider "e \<in> set (edgelist G)" | "e = (u, v, 0, a)" by auto
    then show "\<not> joins (is_directed ?G) (fst y) (fst (snd y)) e"
    proof cases
      case 1
      then show ?thesis using Cons.prems(3) y by (simp add: d)
    next
      case 2
      have "\<not> same_ends (is_directed G) (u, v) (fst y, fst (snd y))"
        using Cons.prems(2) y by (simp add: x)
      then show ?thesis by (simp add: 2 d joins_same_ends)
    qed
  qed
  from Cons.IH[OF m s f] el show ?case by (simp add: x)
qed

lemma fst_permutations2_from: "fst ` set (permutations2_from pre xs) \<subseteq> set xs"
  by (induction pre xs rule: permutations2_from.induct) auto

lemma distinct_permutations2_from:
  "distinct (pre @ xs) \<Longrightarrow> distinct (permutations2_from pre xs)"
proof (induction pre xs rule: permutations2_from.induct)
  case (1 pre)
  then show ?case by simp
next
  case (2 pre x post)
  have "distinct (pre @ post)" using "2.prems" by simp
  moreover have "inj_on (Pair x) (set (pre @ post))" by (simp add: inj_on_def)
  ultimately have a: "distinct (map (Pair x) (pre @ post))"
    by (subst distinct_map) blast
  have b: "distinct (permutations2_from (pre @ [x]) post)"
    using "2.prems" by (intro "2.IH") auto
  have c: "set (map (Pair x) (pre @ post)) \<inter> set (permutations2_from (pre @ [x]) post) = {}"
  proof -
    have "x \<notin> set post" using "2.prems" by simp
    then have "x \<notin> fst ` set (permutations2_from (pre @ [x]) post)"
      using fst_permutations2_from[of "pre @ [x]" post] by blast
    then show ?thesis by force
  qed
  have "permutations2_from pre (x # post)
      = map (Pair x) (pre @ post) @ permutations2_from (pre @ [x]) post" by simp
  moreover have "distinct (map (Pair x) (pre @ post) @ permutations2_from (pre @ [x]) post)"
    using a b c by (simp only: distinct_append)
  ultimately show ?case by (simp only:)
qed

lemma sorted_wrt_neq: "sorted_wrt (\<lambda>x y. x \<noteq> y) xs \<longleftrightarrow> distinct xs"
  by (induction xs) auto

lemma fresh_pairs_from:
  "distinct xs \<Longrightarrow> x \<notin> set xs \<Longrightarrow> sorted_wrt (\<lambda>p q. \<not> same_ends False p q) (map (Pair x) xs)"
  by (induction xs) (auto simp: same_ends_def)

lemma fresh_combinations2:
  "distinct xs \<Longrightarrow> sorted_wrt (\<lambda>p q. \<not> same_ends False p q) (combinations2 xs)"
proof (induction xs)
  case Nil
  then show ?case by simp
next
  case (Cons x xs)
  have a: "sorted_wrt (\<lambda>p q. \<not> same_ends False p q) (map (Pair x) xs)"
    using Cons.prems by (intro fresh_pairs_from) auto
  have b: "sorted_wrt (\<lambda>p q. \<not> same_ends False p q) (combinations2 xs)"
    using Cons by simp
  have c: "\<forall>p\<in>set (map (Pair x) xs). \<forall>q\<in>set (combinations2 xs). \<not> same_ends False p q"
    using Cons.prems set_combinations2[of xs] by (auto simp: same_ends_def)
  from a b c show ?case by (simp add: sorted_wrt_append)
qed

lemma fresh_block_pairs:
  assumes "distinct xs"
  shows "sorted_wrt (\<lambda>p q. \<not> same_ends dir p q) (block_pairs dir xs)"
proof (cases dir)
  case True
  have "distinct (permutations2 xs)"
    using distinct_permutations2_from[of "[]" xs] assms by (simp add: permutations2_def)
  then have "sorted_wrt (\<lambda>p q. p \<noteq> q) (permutations2 xs)" by (simp add: sorted_wrt_neq)
  then show ?thesis using True by (simp add: block_pairs_def same_ends_def)
next
  case False
  then show ?thesis using fresh_combinations2[OF assms] by (simp add: block_pairs_def)
qed

lemma edgelist_add_node: "edgelist (add_node G n a) = edgelist G"
  by (simp add: add_node_def)

lemma edgelist_add_nodes_from: "edgelist (add_nodes_from G ns) = edgelist G"
  unfolding add_nodes_from_def
  by (induction ns arbitrary: G) (auto simp: edgelist_add_node)

lemma edgelist_quotient_nodes: "edgelist (quotient_nodes G P nd cu) = []"
  by (simp add: quotient_nodes_def edgelist_add_nodes_from empty_graph_def split: option.splits)

lemma edgelist_relabel_nodes:
  "edgelist (relabel_nodes G f) = map (\<lambda>(a, b, k, d). (f a, f b, k, d)) (edgelist G)"
  by (simp add: relabel_nodes_def)

lemma filter_same_ends:
  "sorted_wrt (\<lambda>p q. \<not> same_ends dir p q) xs \<Longrightarrow> x \<in> set xs \<Longrightarrow>
   filter (\<lambda>q. same_ends dir q x) xs = [x]"
proof (induction xs)
  case Nil
  then show ?case by simp
next
  case (Cons y ys)
  from Cons.prems(1) have far: "\<forall>q\<in>set ys. \<not> same_ends dir y q"
    and s: "sorted_wrt (\<lambda>p q. \<not> same_ends dir p q) ys" by simp_all
  show ?case
  proof (cases "x \<in> set ys")
    case True
    then have "\<not> same_ends dir y x" using far by blast
    then show ?thesis using Cons.IH[OF s True] by simp
  next
    case False
    then have xy: "x = y" using Cons.prems(2) by simp
    have "\<forall>q\<in>set ys. \<not> same_ends dir q x" using far xy same_ends_sym[of dir] by blast
    then have "filter (\<lambda>q. same_ends dir q x) ys = []" by (simp add: filter_empty_conv)
    then show ?thesis using xy by (simp add: same_ends_refl)
  qed
qed

lemma filter_map_iff: "\<forall>q\<in>set xs. P (g q) \<longleftrightarrow> Q q \<Longrightarrow> filter P (map g xs) = map g (filter Q xs)"
  by (induction xs) auto

lemma same_ends_inj:
  "inj_on f A \<Longrightarrow> a \<in> A \<Longrightarrow> b \<in> A \<Longrightarrow> c \<in> A \<Longrightarrow> d \<in> A \<Longrightarrow>
   same_ends dir (f a, f b) (f c, f d) \<longleftrightarrow> same_ends dir (a, b) (c, d)"
  by (auto simp: same_ends_def inj_on_def)

lemma pairs_permutations2_from:
  "x \<in> set xs \<Longrightarrow> y \<in> set (pre @ xs) \<Longrightarrow> x \<noteq> y \<Longrightarrow> (x, y) \<in> set (permutations2_from pre xs)"
  by (induction pre xs rule: permutations2_from.induct) auto

lemma pairs_combinations2:
  "x \<in> set xs \<Longrightarrow> y \<in> set xs \<Longrightarrow> x \<noteq> y \<Longrightarrow>
   (x, y) \<in> set (combinations2 xs) \<or> (y, x) \<in> set (combinations2 xs)"
  by (induction xs) auto

lemma pairs_block_pairs:
  "x \<in> set xs \<Longrightarrow> y \<in> set xs \<Longrightarrow> x \<noteq> y \<Longrightarrow>
   (x, y) \<in> set (block_pairs dir xs) \<or> (\<not> dir \<and> (y, x) \<in> set (block_pairs dir xs))"
  using pairs_permutations2_from[of x xs y "[]"] pairs_combinations2[of x xs y]
  by (auto simp: block_pairs_def permutations2_def)

lemma set_block_pairs: "set (block_pairs dir xs) \<subseteq> set xs \<times> set xs"
  using set_combinations2[of xs] set_permutations2_from[of "[]" xs]
  by (auto simp: block_pairs_def permutations2_def)

lemma quotient_graph_parts:
  assumes v: "valid_partition G P" and q: "quotient_graph G (Blocks P) er nd ed rl cu = Inr H"
  obtains es where "quotient_edges G (quotient_nodes G P nd cu) er ed = Inr es"
    and "H = relabel_nodes (add_edges_from (quotient_nodes G P nd cu) es) (relabelling rl P)"
    and "cls H = cls (quotient_nodes G P nd cu)"
    and "nodes_list (quotient_nodes G P nd cu) = map set P"
    and "block_pairs_of (quotient_nodes G P nd cu) = block_pairs (is_directed H) (map set P)"
proof -
  let ?H0 = "quotient_nodes G P nd cu"
  from q obtain es where es: "quotient_edges G ?H0 er ed = Inr es"
    and H: "H = relabel_nodes (add_edges_from ?H0 es) (relabelling rl P)"
    by (auto simp: quotient_graph_Blocks split: if_splits sum.splits)
  have c: "cls H = cls ?H0" by (simp add: H cls_relabel_nodes cls_add_edges_from)
  have d: "distinct (map set P)" using v by (rule valid_partition_distinct)
  have n: "nodes_list ?H0 = map set P"
    using fold_append_new_distinct[of "map set P" "[]"] d by (simp add: nodes_list_quotient_nodes)
  have p: "block_pairs_of ?H0 = block_pairs (is_directed H) (map set P)"
    using is_directed_cls[OF c] by (simp add: block_pairs_of_eq n)
  from es H c n p show ?thesis by (rule that)
qed

lemma inj_on_relabelling:
  assumes "distinct (map set P)"
  shows "inj_on (relabelling rl P) (set (map set P))"
proof -
  have "distinct (map (relabelling rl P) (map set P))"
    unfolding map_relabelling[OF assms]
    using assms by (auto simp: distinct_map inj_on_def)
  then show ?thesis by (simp only: distinct_map)
qed

text \<open>
  The edges of a quotient graph that is not a multigraph, for a graph \<open>G\<close> and a
  partition of its nodes: one edge for every enumerated block pair \<open>(b, c)\<close> that the
  edge relation relates (the first part gives the list of edges, the second that
  exactly one edge of \<open>H\<close> joins the two blocks of such a pair), with the data
  \<^verbatim>\<open>edge_data(b, c)\<close> when that function is supplied and otherwise the single
  attribute \<open>weight\<close>, the sum over the edges of \<open>G\<close> crossing between \<open>b\<close> and \<open>c\<close>
  of their weight, 1 for an edge without one (\<open>edge_attrs\<close>). Every two different
  blocks are enumerated as a pair: in both orders when \<open>H\<close> is directed, in one order
  otherwise.
\<close>

theorem quotient_graph_simple_edges:
  assumes v: "valid_partition G P" and q: "quotient_graph G (Blocks P) er nd ed rl cu = Inr H"
    and m: "\<not> is_multigraph H"
  shows "edgelist H = map (\<lambda>(b, c). (relabelling rl P b, relabelling rl P c, 0, edge_attrs G ed b c))
                         (filter (\<lambda>(b, c). blocks_related G er b c) (block_pairs (is_directed H) (map set P)))
     \<and> (\<forall>(b, c)\<in>set (block_pairs (is_directed H) (map set P)). blocks_related G er b c \<longrightarrow>
           filter (joins (is_directed H) (relabelling rl P b) (relabelling rl P c)) (edgelist H)
             = [(relabelling rl P b, relabelling rl P c, 0, edge_attrs G ed b c)])
     \<and> (\<forall>b\<in>set P. \<forall>c\<in>set P. set b \<noteq> set c \<longrightarrow>
           (set b, set c) \<in> set (block_pairs (is_directed H) (map set P))
           \<or> (\<not> is_directed H \<and> (set c, set b) \<in> set (block_pairs (is_directed H) (map set P))))"
proof -
  let ?H0 = "quotient_nodes G P nd cu"
  let ?dir = "is_directed H"
  let ?ps = "block_pairs ?dir (map set P)"
  let ?rho = "relabelling rl P"
  let ?g = "\<lambda>(b, c). (?rho b, ?rho c, 0 :: nat, edge_attrs G ed b c)"
  let ?r = "\<lambda>(b, c). blocks_related G er b c"
  from quotient_graph_parts[OF v q] obtain es where
    es: "quotient_edges G ?H0 er ed = Inr es"
    and H: "H = relabel_nodes (add_edges_from ?H0 es) ?rho"
    and c: "cls H = cls ?H0"
    and n: "nodes_list ?H0 = map set P"
    and p: "block_pairs_of ?H0 = ?ps" by blast
  have d: "distinct (map set P)" using v by (rule valid_partition_distinct)
  have m0: "\<not> is_multigraph ?H0" using m is_multigraph_cls[OF c] by simp
  have d0: "is_directed ?H0 = ?dir" using is_directed_cls[OF c] by simp
  have se: "simple_edges (edge_relation_of G er) (edge_data_of G ed) ?ps = Inr es"
    using es m0 p by (simp add: quotient_edges_def)
  have rel: "\<forall>(b, c)\<in>set ?ps. edge_relation_of G er b c = Inr (blocks_related G er b c)"
  proof (intro ballI, clarify)
    fix b c assume "(b, c) \<in> set ?ps"
    then have "b \<in> set ` set P" "c \<in> set ` set P" using set_block_pairs[of ?dir "map set P"] by auto
    then obtain b' c' where "b' \<in> set P" "b = set b'" "c' \<in> set P" "c = set c'" by auto
    then show "edge_relation_of G er b c = Inr (blocks_related G er b c)"
      using v by (intro edge_relation_of_nodes) (auto simp: valid_partition_def)
  qed
  have dat: "\<forall>b c d. edge_data_of G ed b c = Inr d \<longrightarrow> d = edge_attrs G ed b c"
    using edge_data_of_Inr by blast
  have ex: "es = map (\<lambda>(b, c). (b, c, edge_attrs G ed b c)) (filter ?r ?ps)"
    by (rule simple_edges_explicit[OF rel dat se])
  have fr: "sorted_wrt (\<lambda>p q. \<not> same_ends ?dir p q) (filter ?r ?ps)"
    using fresh_block_pairs[OF d, of ?dir] by (rule sorted_wrt_filter)
  have s: "sorted_wrt (\<lambda>x y. \<not> same_ends (is_directed ?H0) (fst x, fst (snd x)) (fst y, fst (snd y))) es"
    unfolding ex d0 sorted_wrt_map using fr by (simp add: split_def)
  have "edgelist (add_edges_from ?H0 es) = edgelist ?H0 @ map (\<lambda>(u, v, a). (u, v, 0, a)) es"
    using m0 s by (rule edgelist_add_edges_from_new) (simp add: edgelist_quotient_nodes)
  then have "edgelist H = map (\<lambda>(a, b, k, d). (?rho a, ?rho b, k, d)) (map (\<lambda>(u, v, a). (u, v, 0, a)) es)"
    by (simp add: H edgelist_relabel_nodes edgelist_quotient_nodes)
  then have E: "edgelist H = map ?g (filter ?r ?ps)"
    by (simp add: ex split_def o_def)
  have inj: "inj_on ?rho (set (map set P))" by (rule inj_on_relabelling[OF d])
  have U: "\<forall>(b, c)\<in>set ?ps. blocks_related G er b c \<longrightarrow>
           filter (joins ?dir (?rho b) (?rho c)) (edgelist H) = [(?rho b, ?rho c, 0, edge_attrs G ed b c)]"
  proof (intro ballI, clarify)
    fix b c assume bc: "(b, c) \<in> set ?ps" and r: "blocks_related G er b c"
    have mem: "b \<in> set (map set P)" "c \<in> set (map set P)"
      using bc set_block_pairs[of ?dir "map set P"] by auto
    have "filter (joins ?dir (?rho b) (?rho c)) (map ?g (filter ?r ?ps))
        = map ?g (filter (\<lambda>q. same_ends ?dir q (b, c)) (filter ?r ?ps))"
    proof -
      have "\<forall>q\<in>set (filter ?r ?ps). joins ?dir (?rho b) (?rho c) (?g q) \<longleftrightarrow> same_ends ?dir q (b, c)"
      proof
        fix q assume q: "q \<in> set (filter ?r ?ps)"
        obtain b' c' where q': "q = (b', c')" by (cases q)
        have "b' \<in> set (map set P)" "c' \<in> set (map set P)"
          using q q' set_block_pairs[of ?dir "map set P"] by auto
        then show "joins ?dir (?rho b) (?rho c) (?g q) \<longleftrightarrow> same_ends ?dir q (b, c)"
          using same_ends_inj[OF inj _ _ mem, of b' c' ?dir] by (simp add: q' joins_same_ends)
      qed
      then show ?thesis by (rule filter_map_iff)
    qed
    moreover have "filter (\<lambda>q. same_ends ?dir q (b, c)) (filter ?r ?ps) = [(b, c)]"
      using fr bc r by (intro filter_same_ends) auto
    ultimately show "filter (joins ?dir (?rho b) (?rho c)) (edgelist H) = [(?rho b, ?rho c, 0, edge_attrs G ed b c)]"
      by (simp add: E)
  qed
  have C: "\<forall>b\<in>set P. \<forall>c\<in>set P. set b \<noteq> set c \<longrightarrow>
           (set b, set c) \<in> set ?ps \<or> (\<not> ?dir \<and> (set c, set b) \<in> set ?ps)"
    using pairs_block_pairs[of _ "map set P" _ ?dir] by auto
  from E U C show ?thesis by (intro conjI)
qed

theorem quotient_graph_simple_edges_witness:
  "valid_partition example_path [[0], [1, 2]]
   \<and> quotient_graph example_path (Blocks [[0], [1, 2]]) None None None False None
       = Inr \<lparr>cls = Graph,
              node = [(Block {0}, default_node_data example_path {0}),
                      (Block {1, 2}, default_node_data example_path {1, 2})],
              edgelist = [(Block {0}, Block {1, 2}, 0, [(StrV ''weight'', IntV 5)])]\<rparr>
   \<and> map (\<lambda>(b, c). (relabelling False [[0], [1, 2]] b, relabelling False [[0], [1, 2]] c, 0 :: nat,
                     edge_attrs example_path None b c))
         (filter (\<lambda>(b, c). blocks_related example_path None b c)
            (block_pairs False (map set [[0], [1, 2]])))
       = [(Block {0}, Block {1, 2}, 0, [(StrV ''weight'', IntV 5)])]"
proof -
  let ?H = "\<lparr>cls = Graph,
              node = [(Block {0}, default_node_data example_path {0}),
                      (Block {1, 2 :: nat}, default_node_data example_path {1, 2})],
              edgelist = [(Block {0}, Block {1, 2}, 0, [(StrV ''weight'', IntV 5)])]\<rparr>"
  have v: "valid_partition example_path [[0], [1, 2]]"
    unfolding valid_partition_def by code_simp
  have q: "quotient_graph example_path (Blocks [[0], [1, 2]]) None None None False None = Inr ?H"
    by code_simp
  have m: "\<not> is_multigraph ?H" by (simp add: is_multigraph_def)
  have d: "is_directed ?H = False" by (simp add: is_directed_def)
  note t = quotient_graph_simple_edges[OF v q m, THEN conjunct1, unfolded d]
  have el: "edgelist ?H = [(Block {0}, Block {1, 2}, 0, [(StrV ''weight'', IntV 5)])]" by simp
  have e: "map (\<lambda>(b, c). (relabelling False [[0], [1, 2]] b, relabelling False [[0], [1, 2]] c, 0 :: nat,
                     edge_attrs example_path None b c))
         (filter (\<lambda>(b, c). blocks_related example_path None b c)
            (block_pairs False (map set [[0], [1, 2]])))
       = [(Block {0}, Block {1, 2}, 0, [(StrV ''weight'', IntV 5)])]"
    by (rule trans[OF t[symmetric] el])
  from v q e show ?thesis by (intro conjI)
qed

text \<open>
  C2 fails on the code when \<open>G\<close> is directed and the result is an undirected simple
  graph. In the directed graph with the single arc from node 1 to node 0 the blocks
  \<open>{1}\<close> and \<open>{0}\<close> are adjacent, but for the blocks in the order \<open>{0}\<close>, \<open>{1}\<close> and
  the template \<^verbatim>\<open>Graph\<close> the only block pair is \<open>({0}, {1})\<close>, the default edge
  relation looks for an arc from \<open>{0}\<close> to \<open>{1}\<close>, and no edge is added. With the same
  blocks in the other order the edge between them is added.
\<close>

theorem quotient_graph_mixed_direction:
  "valid_partition example_arc [[0], [1]] \<and> adjacent example_arc 1 0
   \<and> blocks_related example_arc None {1} {0}
   \<and> quotient_graph example_arc (Blocks [[0], [1]]) None None None False (Some Graph)
       = Inr \<lparr>cls = Graph,
              node = [(Block {0}, default_node_data example_arc {0}), (Block {1}, default_node_data example_arc {1})],
              edgelist = []\<rparr>
   \<and> quotient_graph example_arc (Blocks [[1], [0]]) None None None False (Some Graph)
       = Inr \<lparr>cls = Graph,
              node = [(Block {1}, default_node_data example_arc {1}), (Block {0}, default_node_data example_arc {0})],
              edgelist = [(Block {1}, Block {0}, 0, [(StrV ''weight'', IntV 1)])]\<rparr>"
proof -
  have v: "valid_partition example_arc [[0], [1]]"
    unfolding valid_partition_def by code_simp
  have a: "adjacent example_arc 1 0" by code_simp
  have r: "blocks_related example_arc None {1} {0}"
    using a by (simp add: blocks_related_def)
  have q: "quotient_graph example_arc (Blocks [[0], [1]]) None None None False (Some Graph)
       = Inr \<lparr>cls = Graph,
              node = [(Block {0}, default_node_data example_arc {0}), (Block {1}, default_node_data example_arc {1})],
              edgelist = []\<rparr>"
    by code_simp
  have q': "quotient_graph example_arc (Blocks [[1], [0]]) None None None False (Some Graph)
       = Inr \<lparr>cls = Graph,
              node = [(Block {1}, default_node_data example_arc {1}), (Block {0}, default_node_data example_arc {0})],
              edgelist = [(Block {1}, Block {0}, 0, [(StrV ''weight'', IntV 1)])]\<rparr>"
    by code_simp
  from v a r q q' show ?thesis by (intro conjI)
qed

theorem quotient_graph_mixed_direction_witness:
  "valid_partition example_arc [[0], [1]]
   \<and> (\<exists>H. quotient_graph example_arc (Blocks [[0], [1]]) None None None False (Some Graph) = Inr H
          \<and> \<not> is_multigraph H \<and> \<not> is_directed H \<and> edgelist H = [])"
proof -
  note v = quotient_graph_mixed_direction[THEN conjunct1]
  note q = quotient_graph_mixed_direction[THEN conjunct2, THEN conjunct2, THEN conjunct2, THEN conjunct1]
  have "\<exists>H. quotient_graph example_arc (Blocks [[0], [1]]) None None None False (Some Graph) = Inr H
          \<and> \<not> is_multigraph H \<and> \<not> is_directed H \<and> edgelist H = []"
    unfolding q by (simp add: is_multigraph_def is_directed_def)
  with v show ?thesis by (intro conjI)
qed

subsection \<open>Empty blocks\<close>

lemma block_check_nonempty: "block_check G (nonempty_blocks P) \<longleftrightarrow> block_check G P"
proof -
  have "filter (\<lambda>b. v \<in> set b) (filter (\<lambda>b. b \<noteq> []) P) = filter (\<lambda>b. v \<in> set b) P" for v
    by (induction P) auto
  then show ?thesis by (simp add: block_check_def nonempty_blocks_def)
qed

lemma filter_fold_append_new:
  "filter p (fold (\<lambda>n xs. append_new xs n) ys xs) = fold (\<lambda>n xs. append_new xs n) (filter p ys) (filter p xs)"
  by (induction ys arbitrary: xs) (auto simp: append_new_def)

lemma map_set_nonempty: "map set (nonempty_blocks P) = filter (\<lambda>b. b \<noteq> {}) (map set P)"
  by (induction P) (auto simp: nonempty_blocks_def)

lemma nodes_nonempty:
  "nodes_list (quotient_nodes G (nonempty_blocks P) nd cu)
     = filter (\<lambda>b. b \<noteq> {}) (nodes_list (quotient_nodes G P nd cu))"
  by (simp add: nodes_list_quotient_nodes map_set_nonempty filter_fold_append_new)

lemma filter_map_Pair:
  "filter (\<lambda>(x, y). p x \<and> p y) (map (Pair x) xs) = (if p x then map (Pair x) (filter p xs) else [])"
  by (induction xs) auto

lemma combinations2_filter:
  "combinations2 (filter p xs) = filter (\<lambda>(x, y). p x \<and> p y) (combinations2 xs)"
  by (induction xs) (auto simp: filter_map_Pair)

lemma permutations2_from_filter:
  "permutations2_from (filter p pre) (filter p xs) = filter (\<lambda>(x, y). p x \<and> p y) (permutations2_from pre xs)"
proof (induction pre xs rule: permutations2_from.induct)
  case (1 pre)
  then show ?case by simp
next
  case (2 pre x post)
  show ?case
  proof (cases "p x")
    case True
    then show ?thesis using "2.IH" by (simp add: filter_map_Pair)
  next
    case False
    then show ?thesis using "2.IH" by (simp add: filter_map_Pair)
  qed
qed

lemma block_pairs_filter:
  "block_pairs dir (filter p xs) = filter (\<lambda>(x, y). p x \<and> p y) (block_pairs dir xs)"
  using permutations2_from_filter[of p "[]" xs]
  by (simp add: block_pairs_def permutations2_def combinations2_filter)

lemma product_Nil_right: "List.product xs [] = []"
  by (induction xs) simp_all

lemma product_empty: "product {} c = []" "product b {} = []"
  by (simp_all add: product_def product_Nil_right)

lemma collect_cong: "\<forall>x\<in>set xs. f x = g x \<Longrightarrow> collect f xs = collect g xs"
proof (induction xs)
  case Nil
  then show ?case by simp
next
  case (Cons a xs)
  then have "f a = g a" "collect f xs = collect g xs" by simp_all
  then show ?case by (simp only: collect.simps)
qed

lemma count_distinct: "distinct xs \<Longrightarrow> x \<in> set xs \<Longrightarrow> length (filter (\<lambda>n. n = x) xs) = 1"
  by (induction xs) (auto simp: filter_empty_conv)

lemma default_edge_data_empty:
  assumes "b = {} \<or> c = {}"
  shows "default_edge_data G b c = Inr [(StrV ''weight'', IntV 0)]"
proof -
  have "filter (\<lambda>(u, v, k, d). crosses b c u v) (edgelist G) = []"
    using assms by (auto simp: crosses_def filter_empty_conv)
  then have "map (\<lambda>(u, v, d). d) (filter (\<lambda>(u, v, d). crosses b c u v) (edges G (b \<union> c))) = []"
    using edges_crossing[of b c G] by simp
  then show ?thesis by (simp add: default_edge_data_def crosses_def Let_def)
qed

lemma quotient_edges_collect:
  "quotient_edges G H er ed = collect (pair_edges G (is_multigraph H) er ed) (block_pairs_of H)"
proof (cases "is_multigraph H")
  case True
  then show ?thesis
    unfolding quotient_edges_def multigraph_edges_def
    by (auto intro!: collect_cong simp: pair_edges_def split: sum.splits)
next
  case False
  then show ?thesis
    unfolding quotient_edges_def simple_edges_def
    by (auto intro!: collect_cong simp: pair_edges_def split: sum.splits)
qed

lemma pair_edges_empty:
  assumes "b = {} \<or> c = {}"
  shows "\<exists>ys. pair_edges G multi er ed (b, c) = Inr ys"
proof -
  have p: "product b c = []" using assms product_empty by auto
  have r: "\<exists>t. edge_relation_of G er b c = Inr t"
    by (cases er) (auto simp: edge_relation_of_def default_edge_relation_def p)
  have x: "crossing_edges G b c = Inr []" by (simp add: crossing_edges_def p)
  have d: "\<exists>d. edge_data_of G ed b c = Inr d"
    using default_edge_data_empty[OF assms] by (cases ed) (simp_all add: edge_data_of_def)
  from r x d show ?thesis by (auto simp: pair_edges_def)
qed

lemma quotient_edges_nonempty:
  "(\<exists>es. quotient_edges G (quotient_nodes G (nonempty_blocks P) nd cu) er ed = Inr es)
   \<longleftrightarrow> (\<exists>es. quotient_edges G (quotient_nodes G P nd cu) er ed = Inr es)"
proof -
  let ?H = "quotient_nodes G P nd cu" and ?H' = "quotient_nodes G (nonempty_blocks P) nd cu"
  have c: "cls ?H' = cls ?H" by (simp add: cls_quotient_nodes)
  have m: "is_multigraph ?H' = is_multigraph ?H" and d: "is_directed ?H' = is_directed ?H"
    using is_multigraph_cls[OF c] is_directed_cls[OF c] by simp_all
  have ps: "block_pairs_of ?H' = filter (\<lambda>(x, y). x \<noteq> {} \<and> y \<noteq> {}) (block_pairs_of ?H)"
    by (simp add: block_pairs_of_eq d nodes_nonempty block_pairs_filter)
  have "(\<forall>x\<in>set (block_pairs_of ?H'). \<exists>ys. pair_edges G (is_multigraph ?H) er ed x = Inr ys)
      \<longleftrightarrow> (\<forall>x\<in>set (block_pairs_of ?H). \<exists>ys. pair_edges G (is_multigraph ?H) er ed x = Inr ys)"
  proof
    assume a: "\<forall>x\<in>set (block_pairs_of ?H'). \<exists>ys. pair_edges G (is_multigraph ?H) er ed x = Inr ys"
    show "\<forall>x\<in>set (block_pairs_of ?H). \<exists>ys. pair_edges G (is_multigraph ?H) er ed x = Inr ys"
    proof
      fix x assume x: "x \<in> set (block_pairs_of ?H)"
      obtain b c where bc: "x = (b, c)" by (cases x)
      show "\<exists>ys. pair_edges G (is_multigraph ?H) er ed x = Inr ys"
      proof (cases "b = {} \<or> c = {}")
        case True
        then show ?thesis unfolding bc by (rule pair_edges_empty)
      next
        case False
        then have "x \<in> set (block_pairs_of ?H')" using x bc ps by simp
        with a show ?thesis by blast
      qed
    qed
  next
    assume "\<forall>x\<in>set (block_pairs_of ?H). \<exists>ys. pair_edges G (is_multigraph ?H) er ed x = Inr ys"
    then show "\<forall>x\<in>set (block_pairs_of ?H'). \<exists>ys. pair_edges G (is_multigraph ?H) er ed x = Inr ys"
      using ps by simp
  qed
  then show ?thesis
    unfolding quotient_edges_collect m by (simp only: collect_Inr_iff)
qed

lemma quotient_graph_nonempty:
  "(\<exists>H. quotient_graph G (Blocks (nonempty_blocks P)) er nd ed rl cu = Inr H)
   \<longleftrightarrow> (\<exists>H. quotient_graph G (Blocks P) er nd ed rl cu = Inr H)"
proof -
  have "(\<exists>H. quotient_graph G (Blocks Q) er nd ed rl cu = Inr H)
      \<longleftrightarrow> block_check G Q \<and> (\<exists>es. quotient_edges G (quotient_nodes G Q nd cu) er ed = Inr es)" for Q
    by (auto simp: quotient_graph_Blocks split: sum.splits)
  then show ?thesis
    using quotient_edges_nonempty[of G P nd cu er ed] block_check_nonempty[of G P] by simp
qed

text \<open>
  C10: let every node of \<open>G\<close> lie in exactly one block of \<open>P\<close>, and let \<open>P'\<close> differ
  from \<open>P\<close> only in empty blocks (so \<open>P'\<close> may be \<open>P\<close> with any number of empty blocks
  added anywhere). Then every node of \<open>G\<close> lies in exactly one block of \<open>P'\<close>, the
  quotient for \<open>P'\<close> does not raise \<^verbatim>\<open>NetworkXException\<close>, and it returns a graph
  whenever the quotient for \<open>P\<close> does, for all other arguments. Without relabelling the
  nodes of the result are the blocks of \<open>P'\<close> as frozen sets, each once: when \<open>P'\<close>
  has an empty block, the empty set is a node of the result exactly once, however many
  empty blocks there are.
\<close>

theorem quotient_graph_empty_blocks:
  assumes "block_check G P" and "nonempty_blocks P' = nonempty_blocks P"
  shows "block_check G P'
     \<and> quotient_graph G (Blocks P') er nd ed rl cu \<noteq> Inl NetworkXException
     \<and> ((\<exists>H. quotient_graph G (Blocks P) er nd ed rl cu = Inr H)
          \<longrightarrow> (\<exists>H'. quotient_graph G (Blocks P') er nd ed rl cu = Inr H'))
     \<and> (\<forall>H'. quotient_graph G (Blocks P') er nd ed False cu = Inr H' \<longrightarrow>
           distinct (nodes_list H') \<and> set (nodes_list H') = Block ` set ` set P'
           \<and> ([] \<in> set P' \<longrightarrow> length (filter (\<lambda>n. n = Block {}) (nodes_list H')) = 1))"
proof (intro conjI allI impI)
  show c: "block_check G P'"
    using assms block_check_nonempty[of G P] block_check_nonempty[of G P'] by simp
  then show "quotient_graph G (Blocks P') er nd ed rl cu \<noteq> Inl NetworkXException"
    by (auto simp: quotient_graph_Blocks split: sum.splits dest: quotient_edges_error)
next
  assume "\<exists>H. quotient_graph G (Blocks P) er nd ed rl cu = Inr H"
  then show "\<exists>H'. quotient_graph G (Blocks P') er nd ed rl cu = Inr H'"
    using quotient_graph_nonempty[of G P er nd ed rl cu] quotient_graph_nonempty[of G P' er nd ed rl cu]
      assms(2) by simp
next
  fix H' assume q: "quotient_graph G (Blocks P') er nd ed False cu = Inr H'"
  have n: "nodes_list H' = map Block (fold (\<lambda>n xs. append_new xs n) (map set P') [])"
    using nodes_list_quotient_graph[OF q] by (simp add: relabelling_def)
  have d0: "distinct (fold (\<lambda>n xs. append_new xs n) (map set P') [])"
    by (rule distinct_fold_append_new) simp
  show d: "distinct (nodes_list H')"
    using d0 by (simp add: n distinct_map inj_on_def)
  show s: "set (nodes_list H') = Block ` set ` set P'"
    by (simp add: n set_fold_append_new)
  assume "[] \<in> set P'"
  then have "Block {} \<in> set (nodes_list H')" using s by force
  then show "length (filter (\<lambda>n. n = Block {}) (nodes_list H')) = 1"
    using d by (intro count_distinct)
qed

theorem quotient_graph_empty_blocks_witness:
  "block_check example_path [[0, 1], [2]]
   \<and> nonempty_blocks [[], [0, 1], [], [2], []] = nonempty_blocks [[0, 1], [2 :: nat]]
   \<and> (\<exists>H. quotient_graph example_path (Blocks [[0, 1], [2]]) None None None False None = Inr H)
   \<and> (\<exists>H'. quotient_graph example_path (Blocks [[], [0, 1], [], [2], []]) None None None False None = Inr H'
          \<and> length (filter (\<lambda>n. n = Block {}) (nodes_list H')) = 1)
   \<and> quotient_graph example_path (Blocks [[], [0, 1], [], [2], []]) None None None False None
       = Inr \<lparr>cls = Graph,
              node = [(Block {}, default_node_data example_path {}),
                      (Block {0, 1}, default_node_data example_path {0, 1}),
                      (Block {2}, default_node_data example_path {2})],
              edgelist = [(Block {0, 1}, Block {2}, 0, [(StrV ''weight'', IntV 1)])]\<rparr>"
proof -
  have c: "block_check example_path [[0, 1], [2]]"
    unfolding block_check_def by code_simp
  have e: "nonempty_blocks [[], [0, 1], [], [2], []] = nonempty_blocks [[0, 1], [2 :: nat]]"
    by (simp add: nonempty_blocks_def)
  have q: "quotient_graph example_path (Blocks [[0, 1], [2]]) None None None False None
       = Inr \<lparr>cls = Graph,
              node = [(Block {0, 1}, default_node_data example_path {0, 1}),
                      (Block {2}, default_node_data example_path {2})],
              edgelist = [(Block {0, 1}, Block {2}, 0, [(StrV ''weight'', IntV 1)])]\<rparr>"
    by code_simp
  then have s: "\<exists>H. quotient_graph example_path (Blocks [[0, 1], [2]]) None None None False None = Inr H"
    by (rule exI)
  have q': "quotient_graph example_path (Blocks [[], [0, 1], [], [2], []]) None None None False None
       = Inr \<lparr>cls = Graph,
              node = [(Block {}, default_node_data example_path {}),
                      (Block {0, 1}, default_node_data example_path {0, 1}),
                      (Block {2}, default_node_data example_path {2})],
              edgelist = [(Block {0, 1}, Block {2}, 0, [(StrV ''weight'', IntV 1)])]\<rparr>"
    by code_simp
  have m: "[] \<in> set [[], [0, 1], [], [2], [] :: nat list]" by simp
  note t = quotient_graph_empty_blocks[OF c e, of None None None False None]
  from t s obtain H' where
    H': "quotient_graph example_path (Blocks [[], [0, 1], [], [2], []]) None None None False None = Inr H'"
    by blast
  from t H' m have "length (filter (\<lambda>n. n = Block {}) (nodes_list H')) = 1"
    by blast
  with H' have x: "\<exists>H'. quotient_graph example_path (Blocks [[], [0, 1], [], [2], []]) None None None False None = Inr H'
          \<and> length (filter (\<lambda>n. n = Block {}) (nodes_list H')) = 1"
    by blast
  from c e s x q' show ?thesis by (intro conjI)
qed

subsection \<open>The input graph is not changed\<close>

lemma graphs_update_block_graph: "graphs (update_block_graph s h f) = graphs s"
  by (simp add: update_block_graph_def)

lemma nth_graphs_update_other: "g \<noteq> h \<Longrightarrow> graphs (update_graph s h f) ! g = graphs s ! g"
  by (simp add: update_graph_def)

lemma nth_graphs_update_same: "h < length (graphs s) \<Longrightarrow> graphs (update_graph s h f) ! h = f (graphs s ! h)"
  by (simp add: update_graph_def)

lemma length_graphs_update: "length (graphs (update_graph s h f)) = length (graphs s)"
  by (simp add: update_graph_def)

lemma take_graphs_update: "n \<le> h \<Longrightarrow> take n (graphs (update_graph s h f)) = take n (graphs s)"
  by (simp add: update_graph_def)

lemma contracted_nodes_st_run:
  assumes g: "g < length (graphs s)"
  shows "take (length (graphs s)) (graphs (fst (contracted_nodes_st s g u v sl))) = graphs s
     \<and> (case contracted_nodes (graphs s ! g) u v sl of
           Inl e \<Rightarrow> snd (contracted_nodes_st s g u v sl) = Inl e
         | Inr H \<Rightarrow> snd (contracted_nodes_st s g u v sl) = Inr (length (graphs s))
                    \<and> graphs (fst (contracted_nodes_st s g u v sl)) ! length (graphs s) = H)"
proof -
  define G where "G = graphs s ! g"
  define n where "n = length (graphs s)"
  define s1 where "s1 = s\<lparr>graphs := graphs s @ [G]\<rparr>"
  define NE where "NE =
     (if is_directed G
      then map (\<lambda>(w, x, d). (w, u, d)) (filter (\<lambda>(w, x, d). sl \<or> w \<noteq> u) (in_edges G v))
           @ map (\<lambda>(x, w, d). (u, w, d)) (filter (\<lambda>(x, w, d). sl \<or> w \<noteq> u) (out_edges G v))
      else map (\<lambda>(x, w, d). (u, w, d)) (filter (\<lambda>(x, w, d). sl \<or> w \<noteq> u) (edges G {v})))"
  have c: "copy_graph s g = (s1, n)" by (simp add: copy_graph_def s1_def n_def G_def)
  have gn: "g \<noteq> n" "g < n" using g by (simp_all add: n_def)
  have l1: "n < length (graphs s1)" by (simp add: s1_def n_def)
  have g1: "graphs s1 ! n = G" "graphs s1 ! g = G"
    using g by (simp_all add: s1_def n_def G_def nth_append)
  have t1: "take n (graphs s1) = graphs s" by (simp add: s1_def n_def)
  note upd = nth_graphs_update_other[OF gn(1)] nth_graphs_update_same length_graphs_update take_graphs_update
  have pure: "contracted_nodes G u v sl =
     (case map_of (node G) v of
        None \<Rightarrow> Inl KeyError
      | Some v_data \<Rightarrow>
          (case remove_node G v of
             Inl e \<Rightarrow> Inl e
           | Inr H \<Rightarrow>
               (case map_of (node (add_edges_from H NE)) u of
                  None \<Rightarrow> Inl KeyError
                | Some u_data \<Rightarrow>
                    (case map_of u_data (StrV ''contraction'') of
                       None \<Rightarrow> Inr (set_node_attr (add_edges_from H NE) u (StrV ''contraction'') (DictV [(NodeV v, DictV v_data)]))
                     | Some (DictV contraction) \<Rightarrow>
                         Inr (set_node_attr (add_edges_from H NE) u (StrV ''contraction'')
                                (DictV (AList.update (NodeV v) (DictV v_data) contraction)))
                     | Some _ \<Rightarrow> Inl TypeError))))"
    unfolding contracted_nodes_def NE_def Let_def by (rule refl)
  show ?thesis
  proof (cases "map_of (node G) v")
    case None
    have "contracted_nodes_st s g u v sl = (s1, Inl KeyError)"
      by (simp add: contracted_nodes_st_def c g1 None Let_def)
    then show ?thesis using None t1 by (simp add: pure G_def[symmetric] n_def[symmetric])
  next
    case (Some v_data)
    show ?thesis
    proof (cases "remove_node G v")
      case (Inl e)
      have "contracted_nodes_st s g u v sl = (s1, Inl e)"
        by (simp add: contracted_nodes_st_def c g1 Some Inl Let_def)
      then show ?thesis using Some Inl t1 by (simp add: pure G_def[symmetric] n_def[symmetric])
    next
      case (Inr H')
      define s2 where "s2 = update_graph s1 n (\<lambda>_. H')"
      define s3 where "s3 = update_graph s2 n (\<lambda>H'. add_edges_from H' NE)"
      have g2: "graphs s2 ! n = H'" "graphs s2 ! g = G" "n < length (graphs s2)" "take n (graphs s2) = graphs s"
        using l1 g1 t1 by (simp_all add: s2_def upd)
      have g3: "graphs s3 ! n = add_edges_from H' NE" "n < length (graphs s3)" "take n (graphs s3) = graphs s"
        using g2 by (simp_all add: s3_def upd)
      have run: "contracted_nodes_st s g u v sl =
        (case map_of (node (add_edges_from H' NE)) u of
           None \<Rightarrow> (s3, Inl KeyError)
         | Some u_data \<Rightarrow>
             (case map_of u_data (StrV ''contraction'') of
                None \<Rightarrow>
                  (update_graph s3 n (\<lambda>H'. set_node_attr H' u (StrV ''contraction'') (DictV [(NodeV v, DictV v_data)])),
                   Inr n)
              | Some (DictV contraction) \<Rightarrow>
                  (update_graph s3 n (\<lambda>H'. set_node_attr H' u (StrV ''contraction'')
                                            (DictV (AList.update (NodeV v) (DictV v_data) contraction))),
                   Inr n)
              | Some _ \<Rightarrow> (s3, Inl TypeError)))"
        unfolding contracted_nodes_st_def c
        by (simp only: prod.case Let_def g1 Some Inr option.case sum.case s2_def[symmetric] g2
              NE_def[symmetric] s3_def[symmetric] g3)
      have pure': "contracted_nodes G u v sl =
               (case map_of (node (add_edges_from H' NE)) u of
                  None \<Rightarrow> Inl KeyError
                | Some u_data \<Rightarrow>
                    (case map_of u_data (StrV ''contraction'') of
                       None \<Rightarrow> Inr (set_node_attr (add_edges_from H' NE) u (StrV ''contraction'') (DictV [(NodeV v, DictV v_data)]))
                     | Some (DictV contraction) \<Rightarrow>
                         Inr (set_node_attr (add_edges_from H' NE) u (StrV ''contraction'')
                                (DictV (AList.update (NodeV v) (DictV v_data) contraction)))
                     | Some _ \<Rightarrow> Inl TypeError))"
        by (simp add: pure Some Inr)
      show ?thesis
        unfolding G_def[symmetric] n_def[symmetric] run pure'
        using g3 by (simp add: upd split: option.splits pyval.splits)
    qed
  qed
qed

lemma quotient_graph_resolve:
  "quotient_graph G p er nd ed rl cu =
     (case resolve_partition G p of Inl e \<Rightarrow> Inl e | Inr P \<Rightarrow> quotient_graph G (Blocks P) er nd ed rl cu)"
  by (cases p) (simp_all add: quotient_graph_def resolve_partition_def split: sum.splits)

lemma quotient_graph_st_run:
  "graphs (fst (quotient_graph_st s g p er nd ed rl cu)) = graphs s
   \<and> take (length (block_graphs s)) (block_graphs (fst (quotient_graph_st s g p er nd ed rl cu))) = block_graphs s
   \<and> take (length (label_graphs s)) (label_graphs (fst (quotient_graph_st s g p er nd ed rl cu))) = label_graphs s
   \<and> (case quotient_graph (graphs s ! g) p er nd ed rl cu of
         Inl e \<Rightarrow> snd (quotient_graph_st s g p er nd ed rl cu) = Inl e
       | Inr H \<Rightarrow>
           if rl
           then snd (quotient_graph_st s g p er nd ed rl cu) = Inr (LabelRef (length (label_graphs s)))
                \<and> label_graphs (fst (quotient_graph_st s g p er nd ed rl cu)) ! length (label_graphs s) = H
           else snd (quotient_graph_st s g p er nd ed rl cu) = Inr (BlockRef (length (block_graphs s)))
                \<and> relabel_nodes (block_graphs (fst (quotient_graph_st s g p er nd ed rl cu)) ! length (block_graphs s)) Block = H)"
proof (cases "resolve_partition (graphs s ! g) p")
  case (Inl e)
  then have "quotient_graph (graphs s ! g) p er nd ed rl cu = Inl e"
    by (simp add: quotient_graph_resolve[of _ p])
  then show ?thesis using Inl by (simp add: quotient_graph_st_def)
next
  case (Inr P)
  then have qr: "quotient_graph (graphs s ! g) p er nd ed rl cu
      = quotient_graph (graphs s ! g) (Blocks P) er nd ed rl cu"
    by (simp add: quotient_graph_resolve[of _ p])
  show ?thesis
  proof (cases "block_check (graphs s ! g) P")
    case False
    then show ?thesis using Inr
      by (simp add: quotient_graph_st_def qr quotient_graph_Blocks)
  next
    case True
    show ?thesis
    proof (cases "quotient_edges (graphs s ! g) (quotient_nodes (graphs s ! g) P nd cu) er ed")
      case (Inl e)
      then show ?thesis using Inr True
        by (simp add: quotient_graph_st_def qr quotient_graph_Blocks Let_def
            update_block_graph_def quotient_nodes_def cong: option.case_cong)
    next
      case es: (Inr es)
      then show ?thesis using Inr True
        by (simp add: quotient_graph_st_def qr quotient_graph_Blocks Let_def
            update_block_graph_def quotient_nodes_def relabelling_def cong: option.case_cong)
    qed
  qed
qed

lemma contracted_edge_st_run:
  assumes g: "g < length (graphs s)"
  shows "take (length (graphs s)) (graphs (fst (contracted_edge_st s g (u, v) sl))) = graphs s
     \<and> (case contracted_edge (graphs s ! g) (u, v) sl of
           Inl e \<Rightarrow> snd (contracted_edge_st s g (u, v) sl) = Inl e
         | Inr H \<Rightarrow> snd (contracted_edge_st s g (u, v) sl) = Inr (length (graphs s))
                    \<and> graphs (fst (contracted_edge_st s g (u, v) sl)) ! length (graphs s) = H)"
proof (cases "has_edge (graphs s ! g) u v")
  case True
  then have "contracted_edge_st s g (u, v) sl = contracted_nodes_st s g u v sl"
    "contracted_edge (graphs s ! g) (u, v) sl = contracted_nodes (graphs s ! g) u v sl"
    by (simp_all add: contracted_edge_st_def contracted_edge_def)
  then show ?thesis using contracted_nodes_st_run[OF g, of u v sl] by (simp only:)
next
  case False
  then show ?thesis by (simp add: contracted_edge_st_def contracted_edge_def)
qed

lemma nth_of_take: "take n ys = xs \<Longrightarrow> g < length xs \<Longrightarrow> ys ! g = xs ! g"
  by (metis nth_take length_take min_less_iff_conj)

text \<open>
  C6: a call of \<^verbatim>\<open>quotient_graph\<close>, \<^verbatim>\<open>contracted_nodes\<close> or
  \<^verbatim>\<open>contracted_edge\<close> on a graph object \<open>g\<close> of the store leaves that object as it
  was, whether the call returns or raises: the cell of \<open>g\<close> holds the same graph (the
  same class, the same nodes with the same attribute dictionaries, the same edges with
  the same attribute dictionaries) in the store after the call. The same holds for every
  other graph object that existed before the call; the calls only add cells. The result
  of each call on the store is the result of the function on graph values: the same
  exception, or a reference to a cell that holds the returned graph (for
  \<^verbatim>\<open>quotient_graph\<close> without \<^verbatim>\<open>relabel\<close>, the graph over blocks whose nodes the
  value model tags with \<open>Block\<close>).
\<close>

theorem input_graph_unchanged:
  assumes g: "g < length (graphs s)"
  shows "graphs (fst (quotient_graph_st s g p er nd ed rl cu)) ! g = graphs s ! g
     \<and> graphs (fst (contracted_nodes_st s g u v sl)) ! g = graphs s ! g
     \<and> graphs (fst (contracted_edge_st s g (u, v) sl)) ! g = graphs s ! g
     \<and> graphs (fst (quotient_graph_st s g p er nd ed rl cu)) = graphs s
     \<and> take (length (graphs s)) (graphs (fst (contracted_nodes_st s g u v sl))) = graphs s
     \<and> take (length (graphs s)) (graphs (fst (contracted_edge_st s g (u, v) sl))) = graphs s
     \<and> (case quotient_graph (graphs s ! g) p er nd ed rl cu of
           Inl e \<Rightarrow> snd (quotient_graph_st s g p er nd ed rl cu) = Inl e
         | Inr H \<Rightarrow>
             if rl
             then snd (quotient_graph_st s g p er nd ed rl cu) = Inr (LabelRef (length (label_graphs s)))
                  \<and> label_graphs (fst (quotient_graph_st s g p er nd ed rl cu)) ! length (label_graphs s) = H
             else snd (quotient_graph_st s g p er nd ed rl cu) = Inr (BlockRef (length (block_graphs s)))
                  \<and> relabel_nodes (block_graphs (fst (quotient_graph_st s g p er nd ed rl cu)) ! length (block_graphs s)) Block = H)
     \<and> (case contracted_nodes (graphs s ! g) u v sl of
           Inl e \<Rightarrow> snd (contracted_nodes_st s g u v sl) = Inl e
         | Inr H \<Rightarrow> snd (contracted_nodes_st s g u v sl) = Inr (length (graphs s))
                    \<and> graphs (fst (contracted_nodes_st s g u v sl)) ! length (graphs s) = H)
     \<and> (case contracted_edge (graphs s ! g) (u, v) sl of
           Inl e \<Rightarrow> snd (contracted_edge_st s g (u, v) sl) = Inl e
         | Inr H \<Rightarrow> snd (contracted_edge_st s g (u, v) sl) = Inr (length (graphs s))
                    \<and> graphs (fst (contracted_edge_st s g (u, v) sl)) ! length (graphs s) = H)"
proof -
  note q = quotient_graph_st_run[of s g p er nd ed rl cu]
  note n = contracted_nodes_st_run[OF g, of u v sl]
  note e = contracted_edge_st_run[OF g, of u v sl]
  have q1: "graphs (fst (quotient_graph_st s g p er nd ed rl cu)) = graphs s"
    using q by (rule conjunct1)
  have n1: "take (length (graphs s)) (graphs (fst (contracted_nodes_st s g u v sl))) = graphs s"
    using n by (rule conjunct1)
  have e1: "take (length (graphs s)) (graphs (fst (contracted_edge_st s g (u, v) sl))) = graphs s"
    using e by (rule conjunct1)
  show ?thesis
  proof (intro conjI)
    show "graphs (fst (quotient_graph_st s g p er nd ed rl cu)) ! g = graphs s ! g"
      by (simp only: q1)
    show "graphs (fst (contracted_nodes_st s g u v sl)) ! g = graphs s ! g"
      using n1 g by (rule nth_of_take)
    show "graphs (fst (contracted_edge_st s g (u, v) sl)) ! g = graphs s ! g"
      using e1 g by (rule nth_of_take)
  qed (rule q1 n1 e1 q[THEN conjunct2, THEN conjunct2, THEN conjunct2] n[THEN conjunct2] e[THEN conjunct2])+
qed

text \<open>
  The theorem at the store of the path on the nodes 0, 1 and 2: contracting the nodes 0 and 1 adds
  the contracted graph as a second cell, contracting the pair \<open>(0, 2)\<close>, which is not an
  edge, raises and leaves the store as it was, and the quotient by the blocks
  \<open>{0, 1}\<close> and \<open>{2}\<close> returns a new graph over blocks; the path is unchanged each time.
\<close>

theorem input_graph_unchanged_witness:
  "0 < length (graphs example_store) \<and> graphs example_store ! 0 = example_path
   \<and> contracted_nodes_st example_store 0 0 1 False
       = (example_store\<lparr>graphs :=
            [example_path,
             \<lparr>cls = Graph,
              node = [(0, [(StrV ''contraction'', DictV [(NodeV 1, DictV [])])]), (2, [])],
              edgelist = [(0, 2, 0, [])]\<rparr>]\<rparr>,
          Inr 1)
   \<and> graphs (fst (contracted_nodes_st example_store 0 0 1 False)) ! 0 = example_path
   \<and> contracted_edge_st example_store 0 (0, 2) False = (example_store, Inl ValueError)
   \<and> graphs (fst (contracted_edge_st example_store 0 (0, 1) True)) ! 0 = example_path
   \<and> snd (quotient_graph_st example_store 0 (Blocks [[0, 1], [2]]) None None None False None) = Inr (BlockRef 0)
   \<and> graphs (fst (quotient_graph_st example_store 0 (Blocks [[0, 1], [2]]) None None None False None)) ! 0
       = example_path"
proof -
  have l: "0 < length (graphs example_store)" by (simp add: example_store_def)
  have p: "graphs example_store ! 0 = example_path" by (simp add: example_store_def)
  have c: "contracted_nodes_st example_store 0 0 1 False
       = (example_store\<lparr>graphs :=
            [example_path,
             \<lparr>cls = Graph,
              node = [(0, [(StrV ''contraction'', DictV [(NodeV 1, DictV [])])]), (2, [])],
              edgelist = [(0, 2, 0, [])]\<rparr>]\<rparr>,
          Inr 1)"
    by code_simp
  have e: "contracted_edge_st example_store 0 (0, 2) False = (example_store, Inl ValueError)"
    by code_simp
  have q: "snd (quotient_graph_st example_store 0 (Blocks [[0, 1], [2]]) None None None False None) = Inr (BlockRef 0)"
    by code_simp
  note t1 = input_graph_unchanged[OF l, of "Blocks [[0, 1], [2]]" None None None False None 0 1 False]
  note t2 = input_graph_unchanged[OF l, of "Blocks [[0, 1], [2]]" None None None False None 0 1 True]
  have a: "graphs (fst (contracted_nodes_st example_store 0 0 1 False)) ! 0 = example_path"
    using t1[THEN conjunct2, THEN conjunct1] p by (simp only:)
  have b: "graphs (fst (contracted_edge_st example_store 0 (0, 1) True)) ! 0 = example_path"
    using t2[THEN conjunct2, THEN conjunct2, THEN conjunct1] p by (simp only:)
  have d: "graphs (fst (quotient_graph_st example_store 0 (Blocks [[0, 1], [2]]) None None None False None)) ! 0
       = example_path"
    using t1[THEN conjunct1] p by (simp only:)
  from l p c a e b q d show ?thesis by (intro conjI)
qed

end
